theory Spec2Isabelle
  imports Main
begin

section \<open>The module loader of the bundler (src/ModuleLoader.ts)\<close>

text \<open>
  The loader is asynchronous but single threaded: between two suspension points
  (an \<^verbatim>\<open>await\<close>) a piece of code runs to its end without interleaving.  The
  development below embeds each such synchronous piece as a function on an explicit
  loader state, the closures built from the configuration as functions that thread
  the state of the user's callbacks, and a settled promise as the value it settled
  with.
\<close>

subsection \<open>Configuration values and user callbacks\<close>

text \<open>
  A user callback is declared to return \<^verbatim>\<open>boolean | null | undefined\<close>.  It may have
  effects of its own, so it is a transformer of a user state \<open>'u\<close>: a callback that is
  not invoked leaves that state as it was, whatever the callback is.
\<close>

datatype cb_result = CbBool bool | CbNull | CbUndefined

fun truthy :: "cb_result \<Rightarrow> bool" where
  "truthy (CbBool b) = b"
| "truthy CbNull = False"
| "truthy CbUndefined = False"

type_synonym ('a, 'u) callback = "string \<Rightarrow> 'a \<Rightarrow> 'u \<Rightarrow> cb_result \<times> 'u"

text \<open>
  The value handed to \<^verbatim>\<open>getIdMatcher\<close> (the \<^verbatim>\<open>external\<close> and the pure-external-modules
  options).  Its declared type is \<^verbatim>\<open>boolean | string[] | function\<close>; JavaScript callers
  also pass a single string, \<^verbatim>\<open>null\<close> or \<^verbatim>\<open>undefined\<close>, and the function has a branch
  for them.
\<close>

datatype ('a, 'u) id_option =
    OptBool bool
  | OptFun "('a, 'u) callback"
  | OptArray "string list"
  | OptString string
  | OptNull
  | OptUndefined

text \<open>\<^verbatim>\<open>id.startsWith('\0')\<close>: the first character is NUL.\<close>

fun startsWithNul :: "string \<Rightarrow> bool" where
  "startsWithNul [] = False"
| "startsWithNul (c # cs) = (c = CHR 0x00)"

text \<open>JavaScript truthiness of an option value: an array is an object, hence truthy
  even when empty; a string is truthy unless it is empty.\<close>

fun option_truthy :: "('a, 'u) id_option \<Rightarrow> bool" where
  "option_truthy (OptBool b) = b"
| "option_truthy (OptFun f) = True"
| "option_truthy (OptArray ids) = True"
| "option_truthy (OptString s) = (s \<noteq> [])"
| "option_truthy OptNull = False"
| "option_truthy OptUndefined = False"

text \<open>
  \<^verbatim>\<open>getIdMatcher\<close> (lines 44-58).  The closure it returns is applied to the id, the
  remaining arguments and the user state.  The set \<^verbatim>\<open>ids\<close> holds the elements of the
  array, or the option itself as its one element; \<^verbatim>\<open>ids.has(id)\<close> is membership.
\<close>

fun getIdMatcher :: "('a, 'u) id_option \<Rightarrow> string \<Rightarrow> 'a \<Rightarrow> 'u \<Rightarrow> bool \<times> 'u" where
  "getIdMatcher (OptBool True) id' args u = (True, u)"
| "getIdMatcher (OptFun option) id' args u =
     (if \<not> startsWithNul id'
      then (let (r, u') = option id' args u in (if truthy r then True else False, u'))
      else (False, u))"
| "getIdMatcher (OptArray ids) id' args u = (id' \<in> set ids, u)"
| "getIdMatcher (OptString s) id' args u =
     (if option_truthy (OptString s :: ('a, 'u) id_option) then (id' \<in> set [s], u) else (False, u))"
| "getIdMatcher (OptBool False) id' args u = (False, u)"
| "getIdMatcher OptNull id' args u = (False, u)"
| "getIdMatcher OptUndefined id' args u = (False, u)"

text \<open>
  The \<^verbatim>\<open>treeshake.moduleSideEffects\<close> option: a boolean, the string
  \<^verbatim>\<open>'no-external'\<close>, a callback, an array of ids, or anything else (another string,
  \<^verbatim>\<open>null\<close>, \<^verbatim>\<open>undefined\<close>).
\<close>

datatype 'u mse_option =
    MseBool bool
  | MseString string
  | MseFun "(bool, 'u) callback"
  | MseArray "string list"
  | MseNull
  | MseUndefined

datatype warning =
    errInvalidOption string string
  | errUnresolvedImportTreatedAsExternal string string
  | errNamespaceConflict string string string

text \<open>
  \<^verbatim>\<open>getHasModuleSideEffects\<close> (lines 60-89) returns a closure and may call
  \<^verbatim>\<open>graph.warn\<close> while building it: the warnings of the construction are
  \<open>getHasModuleSideEffects_warnings\<close>, the closure is \<open>getHasModuleSideEffects\<close>.
  In the last branch the pure-external-modules matcher is consulted only for an
  external id (\<^verbatim>\<open>external && isPureExternalModule(id)\<close>).
\<close>

fun getHasModuleSideEffects_warnings :: "'u mse_option \<Rightarrow> warning list" where
  "getHasModuleSideEffects_warnings (MseBool b) = []"
| "getHasModuleSideEffects_warnings (MseFun f) = []"
| "getHasModuleSideEffects_warnings (MseArray ids) = []"
| "getHasModuleSideEffects_warnings (MseString s) =
     (if s = ''no-external'' then []
      else if s \<noteq> [] then
        [errInvalidOption ''treeshake.moduleSideEffects''
           (''please use one of false, '' @ [CHR 0x22] @ ''no-external'' @ [CHR 0x22] @
            '', a function or an array'')]
      else [])"
| "getHasModuleSideEffects_warnings MseNull = []"
| "getHasModuleSideEffects_warnings MseUndefined = []"

definition pureExternalDefault ::
  "(unit, 'u) id_option \<Rightarrow> string \<Rightarrow> bool \<Rightarrow> 'u \<Rightarrow> bool \<times> 'u" where
  "pureExternalDefault pureExternalModules id' external u =
     (if external
      then (let (p, u') = getIdMatcher pureExternalModules id' () u in (\<not> p, u'))
      else (True, u))"

fun getHasModuleSideEffects ::
  "'u mse_option \<Rightarrow> (unit, 'u) id_option \<Rightarrow> string \<Rightarrow> bool \<Rightarrow> 'u \<Rightarrow> bool \<times> 'u" where
  "getHasModuleSideEffects (MseBool moduleSideEffectsOption) pureExternalModules id' external u =
     (moduleSideEffectsOption, u)"
| "getHasModuleSideEffects (MseString s) pureExternalModules id' external u =
     (if s = ''no-external'' then (\<not> external, u)
      else pureExternalDefault pureExternalModules id' external u)"
| "getHasModuleSideEffects (MseFun moduleSideEffectsOption) pureExternalModules id' external u =
     (if \<not> startsWithNul id'
      then (let (r, u') = moduleSideEffectsOption id' external u in (r \<noteq> CbBool False, u'))
      else (True, u))"
| "getHasModuleSideEffects (MseArray ids) pureExternalModules id' external u =
     (id' \<in> set ids, u)"
| "getHasModuleSideEffects MseNull pureExternalModules id' external u =
     pureExternalDefault pureExternalModules id' external u"
| "getHasModuleSideEffects MseUndefined pureExternalModules id' external u =
     pureExternalDefault pureExternalModules id' external u"

subsection \<open>Errors and settled promises\<close>

text \<open>
  The values thrown by the loader, named after the functions of \<^verbatim>\<open>utils/error\<close> that
  build them; \<open>Error_CannotFetchExternal\<close> is the plain \<^verbatim>\<open>Error\<close> of line 279,
  \<open>CouldNotLoad\<close> the error of a failed \<^verbatim>\<open>load\<close> hook with its decorated message
  (lines 299-303), \<open>TypeError\<close> the error JavaScript raises on reading a property of
  \<^verbatim>\<open>undefined\<close> or calling a value that is not a function, and \<open>Thrown\<close> an error
  raised by a plugin hook or the transform stage.
\<close>

datatype error =
    errCannotAssignModuleToChunk string string string
  | errEntryCannotBeExternal string
  | errInternalIdCannotBeExternal string string
  | errUnresolvedEntry string
  | errUnresolvedImport string string
  | errBadLoader string
  | Error_CannotFetchExternal string
  | CouldNotLoad string "string option" error
  | TypeError
  | Thrown string

text \<open>A promise that has settled: rejected with an error (\<open>Inl\<close>) or fulfilled with a
  value (\<open>Inr\<close>).\<close>

type_synonym 'a settled = "error + 'a"

text \<open>
  \<^verbatim>\<open>Promise.all\<close> over promises that all settle: fulfilled with the values when every
  input is fulfilled, otherwise rejected with the reason of the input that rejects
  first.  Which one is first is a matter of timing, so the function returns the set
  of outcomes that can be observed.
\<close>

definition Promise_all :: "'a settled list \<Rightarrow> ('a list) settled set" where
  "Promise_all promises =
     (if list_all (\<lambda>p. \<not> isl p) promises then {Inr (map projr promises)}
      else Inl ` projl ` set (filter isl promises))"

text \<open>\<^verbatim>\<open>p.catch(handler)\<close> is a new promise; \<^verbatim>\<open>p\<close> itself settles as before.\<close>

definition Promise_catch :: "'a settled set \<Rightarrow> (error \<Rightarrow> 'a) \<Rightarrow> 'a settled set" where
  "Promise_catch p handler = (\<lambda>r. case r of Inl e \<Rightarrow> Inr (handler e) | Inr v \<Rightarrow> Inr v) ` p"

text \<open>A promise that is kept in a field of the loader and awaited later: pending
  (\<open>None\<close>) or settled.\<close>

type_synonym 'a promise = "'a settled option"

text \<open>
  \<^verbatim>\<open>Promise.all([p, q])\<close> while it has not settled, from the states of \<^verbatim>\<open>p\<close> and
  \<^verbatim>\<open>q\<close>: it is rejected as soon as one of them is, and fulfilled once both are.  When
  both are found rejected, the reaction to \<^verbatim>\<open>p\<close> comes first.  The loader only
  awaits the combination, it never reads the array it is fulfilled with.
\<close>

definition Promise_all_pair :: "'a promise \<Rightarrow> 'b promise \<Rightarrow> unit promise" where
  "Promise_all_pair p q =
     (case p of
        Some (Inl err) \<Rightarrow> Some (Inl err)
      | Some (Inr v) \<Rightarrow>
          (case q of
             Some (Inl err) \<Rightarrow> Some (Inl err)
           | Some (Inr w) \<Rightarrow> Some (Inr ())
           | None \<Rightarrow> None)
      | None \<Rightarrow>
          (case q of
             Some (Inl err) \<Rightarrow> Some (Inl err)
           | Some (Inr w) \<Rightarrow> None
           | None \<Rightarrow> None))"

subsection \<open>The data model\<close>

record ResolvedId =
  resolved_id :: string
  external :: bool
  resolved_moduleSideEffects :: bool

text \<open>
  The fields of a \<^verbatim>\<open>Module\<close> that the loader reads and writes.  \<^verbatim>\<open>exports\<close> is
  represented by its keys and \<^verbatim>\<open>exportsAll\<close> by its entries, both in property order
  (the order \<^verbatim>\<open>for ... in\<close> enumerates); the two \<^verbatim>\<open>Set\<close>s are lists without
  repetition, in insertion order.
\<close>

record Module =
  module_id :: string
  moduleSideEffects :: bool
  isEntryPoint :: bool
  isUserDefinedEntryPoint :: bool
  manualChunkAlias :: "string option"
  chunkName :: "string option"
  chunkFileNames :: "string list"
  userChunkNames :: "string list"
  exports :: "string list"
  exportsAll :: "(string \<times> string) list"
  exportAllSources :: "string list"
  sources :: "string list"
  resolvedIds :: "string \<rightharpoonup> ResolvedId"

record ExternalModule =
  external_id :: string
  external_moduleSideEffects :: bool

text \<open>
  Modelled from the spec: the constructor of \<^verbatim>\<open>Module\<close> (Module.ts is not among the
  sources).  The spec's data model: the id is the canonical key, \<^verbatim>\<open>moduleSideEffects\<close>
  is fixed at creation, \<^verbatim>\<open>isEntryPoint\<close> is what the creating request says, and the
  chunk hints, the export tables and the resolution cache start empty.
\<close>

definition new_Module :: "string \<Rightarrow> bool \<Rightarrow> bool \<Rightarrow> Module" where
  "new_Module id' moduleSideEffects' isEntry =
     \<lparr> module_id = id', moduleSideEffects = moduleSideEffects', isEntryPoint = isEntry,
       isUserDefinedEntryPoint = False, manualChunkAlias = None, chunkName = None,
       chunkFileNames = [], userChunkNames = [], exports = [], exportsAll = [],
       exportAllSources = [], sources = [], resolvedIds = Map.empty \<rparr>"

text \<open>Modelled from the spec: the constructor of \<^verbatim>\<open>ExternalModule\<close>
  (\<^verbatim>\<open>{ id, moduleSideEffects }\<close>, a terminal node).\<close>

definition new_ExternalModule :: "string \<Rightarrow> bool \<Rightarrow> ExternalModule" where
  "new_ExternalModule id' moduleSideEffects' =
     \<lparr> external_id = id', external_moduleSideEffects = moduleSideEffects' \<rparr>"

text \<open>
  What the transform stage (or the cache of the previous build) hands to
  \<^verbatim>\<open>module.setSource\<close>, as far as the loader reads it back from the module.
\<close>

record ModuleSource =
  source_exports :: "string list"
  source_exportAllSources :: "string list"
  source_sources :: "string list"

text \<open>Modelled from the spec: \<^verbatim>\<open>Module.setSource\<close> attaches the exports and the static
  import lists of the analysed source to the module.\<close>

definition setSource :: "ModuleSource \<Rightarrow> Module \<Rightarrow> Module" where
  "setSource source M =
     M\<lparr> exports := source_exports source,
        exportAllSources := source_exportAllSources source,
        sources := source_sources source \<rparr>"

text \<open>
  Objects live in a store: every \<^verbatim>\<open>new Module\<close> appends to \<open>modules\<close> and every
  \<^verbatim>\<open>new ExternalModule\<close> to \<open>externalModules\<close>; a reference is the position of the
  object, and \<^verbatim>\<open>instanceof ExternalModule\<close> is the constructor of the reference.  A
  mutation of a module through any reference is an update of the store.
\<close>

datatype entity_ref = ModuleRef nat | ExternalRef nat

record IndexedEntryModule =
  index :: nat
  module :: nat

text \<open>The variables an \<^verbatim>\<open>addEntryModules\<close> call keeps across its
  \<^verbatim>\<open>await Promise.all(_)\<close>.\<close>

record EntryCall =
  firstEntryModuleIndex :: nat
  unresolvedCount :: nat
  call_isUserDefined :: bool

text \<open>What a \<^verbatim>\<open>loadNewModulesPromise\<close> is fulfilled with: the entry modules of the
  call (line 170), or nothing (the promise of \<^verbatim>\<open>addManualChunks\<close>, lines 190-195).\<close>

datatype newModules = NewEntryModules "nat list" | NoModules

text \<open>
  Where an invocation of \<^verbatim>\<open>awaitLoadModulesPromise\<close> stands: its
  \<^verbatim>\<open>getCombinedPromise\<close> awaits \<^verbatim>\<open>startingPromise\<close> (line 231); or that has
  returned and the invocation hands \<^verbatim>\<open>loadNewModulesPromise\<close> to its caller (line
  237); or the promise of the caller has settled.
\<close>

datatype await_stage = AwaitStartingPromise nat | ReturnLoadNewModulesPromise | Completed

text \<open>
  One invocation of \<^verbatim>\<open>awaitLoadModulesPromise\<close>: its argument, the promise it stores
  in \<^verbatim>\<open>latestLoadModulesPromise\<close> (line 225), and where it stands.  Every invocation
  stores a new promise, so the promises that the field ever held are numbered: \<open>0\<close>
  is the promise of the field initialiser (line 97), \<open>k + 1\<close> the promise of
  invocation \<open>k\<close>, and the field refers to the one created last.
\<close>

record LoadModulesCall =
  loadNewModulesPromise :: "newModules promise"
  combinedPromise :: "unit promise"
  stage :: await_stage

text \<open>
  What the promise of an \<^verbatim>\<open>addEntryModules\<close> call is fulfilled with (lines 173-177):
  \<^verbatim>\<open>entryModules\<close> and \<^verbatim>\<open>newEntryModules\<close>; \<^verbatim>\<open>manualChunkModulesByAlias\<close> is the
  loader's own object, not a copy of it.  The promise of \<^verbatim>\<open>addManualChunks\<close> is
  fulfilled with nothing.
\<close>

datatype call_result = EntryModulesResult "nat list" "nat list" | ManualChunksResult

text \<open>Calls that leave the loader: the plugin hooks, \<^verbatim>\<open>emitFile\<close> and the transform
  stage.\<close>

datatype plugin_call =
    hookFirst_resolveId string "string option"
  | hookFirst_load string
  | emitFile string
  | transform string string

record 'u loader =
  modules :: "Module list"
  externalModules :: "ExternalModule list"
  modulesById :: "string \<rightharpoonup> entity_ref"
  manualChunkModules :: "string \<rightharpoonup> nat list"
  indexedEntryModules :: "IndexedEntryModule list"
  nextEntryModuleIndex :: nat
  entryCalls :: "EntryCall list"
  loadModulesCalls :: "LoadModulesCall list"
  settledCalls :: "(call_result settled) list"
  warnings :: "warning list"
  calls :: "plugin_call list"
  user :: 'u

record cached_module =
  customTransformCache :: bool
  originalCode :: string
  transformFiles :: "string list option"
  cached_source :: ModuleSource

text \<open>
  The closures the constructor stores (lines 112-121) and what the loader reads from
  the graph.  \<^verbatim>\<open>isRelative\<close> is imported from \<^verbatim>\<open>utils/path\<close>, which is not among the
  sources: it is a parameter.
\<close>

record 'u config =
  isExternal :: "string \<Rightarrow> string \<times> bool \<Rightarrow> 'u \<Rightarrow> bool \<times> 'u"
  hasModuleSideEffects :: "string \<Rightarrow> bool \<Rightarrow> 'u \<Rightarrow> bool \<times> 'u"
  getManualChunk :: "string \<Rightarrow> 'u \<Rightarrow> string option \<times> 'u"
  cachedModules :: "string \<rightharpoonup> cached_module"
  isRelative :: "string \<Rightarrow> bool"

definition ModuleLoader_config ::
  "(string \<times> bool, 'u) id_option \<Rightarrow> (string \<Rightarrow> 'u \<Rightarrow> string option \<times> 'u) option \<Rightarrow>
   'u mse_option \<Rightarrow> (unit, 'u) id_option \<Rightarrow> (string \<rightharpoonup> cached_module) \<Rightarrow> (string \<Rightarrow> bool) \<Rightarrow>
   'u config" where
  "ModuleLoader_config external' getManualChunk' moduleSideEffects' pureExternalModules cached rel =
     \<lparr> isExternal = getIdMatcher external',
       hasModuleSideEffects = getHasModuleSideEffects moduleSideEffects' pureExternalModules,
       getManualChunk = (case getManualChunk' of Some f \<Rightarrow> f | None \<Rightarrow> (\<lambda>id' u. (None, u))),
       cachedModules = cached,
       isRelative = rel \<rparr>"

text \<open>The loader as the constructor leaves it, on the empty registry the graph hands
  over; the only effect of the construction is the possible configuration warning.\<close>

definition ModuleLoader_init :: "'u mse_option \<Rightarrow> 'u \<Rightarrow> 'u loader" where
  "ModuleLoader_init moduleSideEffects' u =
     \<lparr> modules = [], externalModules = [], modulesById = Map.empty,
       manualChunkModules = Map.empty, indexedEntryModules = [], nextEntryModuleIndex = 0,
       entryCalls = [], loadModulesCalls = [], settledCalls = [],
       warnings = getHasModuleSideEffects_warnings moduleSideEffects',
       calls = [], user = u \<rparr>"

text \<open>A synchronous piece of code returns the value it threw or returned together with
  the state it left: what it mutated before a \<^verbatim>\<open>throw\<close> stays mutated.\<close>

type_synonym ('a, 'u) outcome = "(error + 'a) \<times> 'u loader"

definition update_module :: "nat \<Rightarrow> (Module \<Rightarrow> Module) \<Rightarrow> 'u loader \<Rightarrow> 'u loader" where
  "update_module m f s = s\<lparr> modules := (modules s)[m := f (modules s ! m)] \<rparr>"

definition warn :: "warning \<Rightarrow> 'u loader \<Rightarrow> 'u loader" where
  "warn w s = s\<lparr> warnings := warnings s @ [w] \<rparr>"

definition record_call :: "plugin_call \<Rightarrow> 'u loader \<Rightarrow> 'u loader" where
  "record_call c s = s\<lparr> calls := calls s @ [c] \<rparr>"

subsection \<open>Manual chunks\<close>

text \<open>
  \<^verbatim>\<open>manualChunkModules\<close> is a plain object (\<^verbatim>\<open>{}\<close>, line 98), so reading an alias
  that is not an own property but a property of \<^verbatim>\<open>Object.prototype\<close> yields that
  inherited value: it is truthy, no array is stored, and calling its \<^verbatim>\<open>push\<close> raises
  a \<^verbatim>\<open>TypeError\<close>.
\<close>

definition object_prototype_keys :: "string list" where
  "object_prototype_keys =
     [''constructor'', ''__defineGetter__'', ''__defineSetter__'', ''hasOwnProperty'',
      ''__lookupGetter__'', ''__lookupSetter__'', ''isPrototypeOf'', ''propertyIsEnumerable'',
      ''toString'', ''valueOf'', ''__proto__'', ''toLocaleString'']"

text \<open>\<^verbatim>\<open>addModuleToManualChunk\<close> (lines 213-222).\<close>

definition addModuleToManualChunk :: "string \<Rightarrow> nat \<Rightarrow> 'u loader \<Rightarrow> (unit, 'u) outcome" where
  "addModuleToManualChunk alias m s =
     (if manualChunkAlias (modules s ! m) \<noteq> None \<and> manualChunkAlias (modules s ! m) \<noteq> Some alias
      then (Inl (errCannotAssignModuleToChunk (module_id (modules s ! m)) alias
                  (the (manualChunkAlias (modules s ! m)))), s)
      else
        (let s1 = update_module m (\<lambda>M. M\<lparr> manualChunkAlias := Some alias \<rparr>) s in
         case manualChunkModules s1 alias of
           Some assigned \<Rightarrow>
             (Inr (), s1\<lparr> manualChunkModules := (manualChunkModules s1)(alias \<mapsto> assigned @ [m]) \<rparr>)
         | None \<Rightarrow>
             if alias \<in> set object_prototype_keys then (Inl TypeError, s1)
             else (Inr (), s1\<lparr> manualChunkModules := (manualChunkModules s1)(alias \<mapsto> [] @ [m]) \<rparr>)))"

subsection \<open>Fetching a module\<close>

text \<open>
  The promise \<^verbatim>\<open>fetchModule\<close> returns: already fulfilled with the registered module
  (line 281), or pending on the \<^verbatim>\<open>load\<close> hook of the module just created (line 292
  and the \<^verbatim>\<open>async\<close> function after it).
\<close>

datatype fetch_result = Fetched nat | Loading nat

text \<open>
  \<^verbatim>\<open>fetchModule\<close>, lines 276-292: the code that runs before the function returns
  its promise.  The module is created and registered first; then the user's
  \<^verbatim>\<open>getManualChunk\<close> is asked, and the \<^verbatim>\<open>load\<close> hook is invoked.
\<close>

definition fetchModule ::
  "'u config \<Rightarrow> string \<Rightarrow> string option \<Rightarrow> bool \<Rightarrow> bool \<Rightarrow> 'u loader \<Rightarrow> (fetch_result, 'u) outcome" where
  "fetchModule cfg id' importer moduleSideEffects' isEntry s =
     (case modulesById s id' of
        Some existingModule \<Rightarrow>
          (case existingModule of
             ExternalRef e \<Rightarrow> (Inl (Error_CannotFetchExternal id'), s)
           | ModuleRef m \<Rightarrow>
               (Inr (Fetched m),
                update_module m (\<lambda>M. M\<lparr> isEntryPoint := (isEntryPoint M \<or> isEntry) \<rparr>) s))
      | None \<Rightarrow>
          (let m = length (modules s);
               s1 = s\<lparr> modules := modules s @ [new_Module id' moduleSideEffects' isEntry] \<rparr>;
               s2 = s1\<lparr> modulesById := (modulesById s1)(id' \<mapsto> ModuleRef m) \<rparr>;
               (manualChunkAlias', u') = getManualChunk cfg id' (user s2);
               s3 = s2\<lparr> user := u' \<rparr>;
               (assigned, s4) =
                 (case manualChunkAlias' of
                    Some alias \<Rightarrow> addModuleToManualChunk alias m s3
                  | None \<Rightarrow> (Inr (), s3))
           in case assigned of
                Inl err \<Rightarrow> (Inl err, s4)
              | Inr _ \<Rightarrow> (Inr (Loading m), record_call (hookFirst_load id') s4)))"

text \<open>What the \<^verbatim>\<open>load\<close> hook resolved to: a string, an object (with its \<^verbatim>\<open>code\<close>
  when that is a string, and its \<^verbatim>\<open>moduleSideEffects\<close> when that is a boolean), or
  anything else.\<close>

datatype load_result =
    LoadString string
  | LoadObject "string option" "bool option"
  | LoadOther

text \<open>Lines 307-309: the source description, or none for a bad loader result.\<close>

fun sourceDescription :: "load_result \<Rightarrow> (string \<times> bool option) option" where
  "sourceDescription (LoadString source) = Some (source, None)"
| "sourceDescription (LoadObject (Some code) sideEffects) = Some (code, sideEffects)"
| "sourceDescription (LoadObject None sideEffects) = None"
| "sourceDescription LoadOther = None"

text \<open>Lines 313-318: the cached module of the previous build, when it can be reused.\<close>

definition usableCachedModule :: "'u config \<Rightarrow> string \<Rightarrow> string \<Rightarrow> cached_module option" where
  "usableCachedModule cfg id' code =
     (case cachedModules cfg id' of
        None \<Rightarrow> None
      | Some cachedModule \<Rightarrow>
          if \<not> customTransformCache cachedModule \<and> originalCode cachedModule = code
          then Some cachedModule else None)"

text \<open>The value the second \<^verbatim>\<open>await\<close> (line 312) waits for: the cached module, or the
  promise of the transform stage.\<close>

datatype transform_result = Cached cached_module | Transforming

text \<open>
  \<^verbatim>\<open>fetchModule\<close>, lines 294-330: the continuation of module \<open>m\<close> once the \<^verbatim>\<open>load\<close>
  hook has settled.  (The \<^verbatim>\<open>await\<close> of line 305 waits for a value that is no promise;
  the code after it reads nothing that another piece of the loader writes, so both
  pieces are one function here.)
\<close>

definition fetchModule_loaded ::
  "'u config \<Rightarrow> nat \<Rightarrow> string option \<Rightarrow> load_result settled \<Rightarrow> 'u loader \<Rightarrow>
   (transform_result, 'u) outcome" where
  "fetchModule_loaded cfg m importer loaded s =
     (let id' = module_id (modules s ! m) in
      case loaded of
        Inl err \<Rightarrow>
          (Inl (CouldNotLoad id'
                 (case importer of None \<Rightarrow> None | Some i \<Rightarrow> if i \<noteq> [] then Some i else None) err), s)
      | Inr source \<Rightarrow>
          (case sourceDescription source of
             None \<Rightarrow> (Inl (errBadLoader id'), s)
           | Some (code, sideEffects) \<Rightarrow>
               (case usableCachedModule cfg id' code of
                  Some cachedModule \<Rightarrow>
                    (Inr (Cached cachedModule),
                     s\<lparr> calls := calls s @
                          map emitFile (case transformFiles cachedModule of
                                          None \<Rightarrow> [] | Some files \<Rightarrow> files) \<rparr>)
                | None \<Rightarrow>
                    (Inr Transforming,
                     record_call (transform id' code)
                       (case sideEffects of
                          Some b \<Rightarrow> update_module m (\<lambda>M. M\<lparr> moduleSideEffects := b \<rparr>) s
                        | None \<Rightarrow> s)))))"

text \<open>
  \<^verbatim>\<open>fetchModule\<close>, lines 331-333: once the source is there (a rejected transform
  rejects the fetch), it is attached to the module and the module is stored under its
  id again; then \<^verbatim>\<open>fetchAllDependencies\<close> is started.
\<close>

definition fetchModule_transformed ::
  "nat \<Rightarrow> ModuleSource settled \<Rightarrow> 'u loader \<Rightarrow> (unit, 'u) outcome" where
  "fetchModule_transformed m transformed s =
     (case transformed of
        Inl err \<Rightarrow> (Inl err, s)
      | Inr source \<Rightarrow>
          (let s1 = update_module m (setSource source) s;
               s2 = s1\<lparr> modulesById := (modulesById s1)(module_id (modules s1 ! m) \<mapsto> ModuleRef m) \<rparr>
           in (Inr (), s2)))"

text \<open>
  \<^verbatim>\<open>fetchAllDependencies\<close> (lines 240-268), on the promises it builds: one per
  dynamic import (the \<^verbatim>\<open>async\<close> function of lines 244-257) and one per static
  source (\<^verbatim>\<open>resolveAndFetchDependency\<close>), each given by how it settles.  The promise
  made by \<^verbatim>\<open>catch\<close> is dropped (line 261); the function awaits the static fetches and
  then returns \<^verbatim>\<open>fetchDynamicImportsPromise\<close> itself, so its own promise settles as
  that one does.
\<close>

definition fetchAllDependencies ::
  "unit settled list \<Rightarrow> entity_ref settled list \<Rightarrow> (unit list) settled set" where
  "fetchAllDependencies dynamicImportFetches dependencyFetches =
     (let fetchDynamicImportsPromise = Promise_all dynamicImportFetches;
          dropped = Promise_catch fetchDynamicImportsPromise (\<lambda>err. [])
      in (\<Union>awaited \<in> Promise_all dependencyFetches.
            case awaited of
              Inl err \<Rightarrow> {Inl err}
            | Inr deps \<Rightarrow> fetchDynamicImportsPromise))"

text \<open>JavaScript property assignment on an object whose properties are enumerated in
  insertion order: an existing key keeps its place, a new key goes last.\<close>

fun set_property :: "string \<Rightarrow> 'v \<Rightarrow> (string \<times> 'v) list \<Rightarrow> (string \<times> 'v) list" where
  "set_property k v [] = [(k, v)]"
| "set_property k v (p # ps) = (if fst p = k then (k, v) # ps else p # set_property k v ps)"

text \<open>Lines 334-338: every exported name but \<^verbatim>\<open>default\<close> refers to the module itself.\<close>

fun addOwnExports :: "string \<Rightarrow> string list \<Rightarrow> (string \<times> string) list \<Rightarrow> (string \<times> string) list" where
  "addOwnExports id' [] all = all"
| "addOwnExports id' (name # names) all =
     addOwnExports id' names (if name \<noteq> ''default'' then set_property name id' all else all)"

text \<open>
  Lines 344-350: the names of one \<^verbatim>\<open>export *\<close> target \<open>x\<close>, enumerated from its
  \<^verbatim>\<open>exportsAll\<close> as it is when the loop starts (the loop writes to the importing
  module only, and when that is the target itself every name is already present).
\<close>

fun mergeExportsAll :: "nat \<Rightarrow> nat \<Rightarrow> (string \<times> string) list \<Rightarrow> 'u loader \<Rightarrow> 'u loader" where
  "mergeExportsAll m x [] s = s"
| "mergeExportsAll m x ((name, origin) # rest) s =
     mergeExportsAll m x rest
       (if name \<in> fst ` set (exportsAll (modules s ! m))
        then warn (errNamespaceConflict name (module_id (modules s ! m)) (module_id (modules s ! x))) s
        else update_module m (\<lambda>M. M\<lparr> exportsAll := exportsAll M @ [(name, origin)] \<rparr>) s)"

text \<open>
  Lines 339-351: the \<^verbatim>\<open>forEach\<close> over \<^verbatim>\<open>exportAllSources\<close>.  A source without a
  resolution, or a resolution whose id is not registered, makes the code read a
  property of \<^verbatim>\<open>undefined\<close>.
\<close>

fun linkExportAllSources :: "nat \<Rightarrow> string list \<Rightarrow> 'u loader \<Rightarrow> (unit, 'u) outcome" where
  "linkExportAllSources m [] s = (Inr (), s)"
| "linkExportAllSources m (source # rest) s =
     (case resolvedIds (modules s ! m) source of
        None \<Rightarrow> (Inl TypeError, s)
      | Some resolved \<Rightarrow>
          (case modulesById s (resolved_id resolved) of
             None \<Rightarrow> (Inl TypeError, s)
           | Some (ExternalRef e) \<Rightarrow> linkExportAllSources m rest s
           | Some (ModuleRef x) \<Rightarrow>
               linkExportAllSources m rest (mergeExportsAll m x (exportsAll (modules s ! x)) s)))"

text \<open>
  \<^verbatim>\<open>fetchModule\<close>, lines 333-352: the continuation once the promise of
  \<^verbatim>\<open>fetchAllDependencies\<close> has settled.  There is no handler around the \<^verbatim>\<open>await\<close>, so
  a rejection rejects the fetch of the module.
\<close>

definition fetchModule_linked :: "nat \<Rightarrow> (unit list) settled \<Rightarrow> 'u loader \<Rightarrow> (nat, 'u) outcome" where
  "fetchModule_linked m dependencies s =
     (case dependencies of
        Inl err \<Rightarrow> (Inl err, s)
      | Inr fetched \<Rightarrow>
          (let s1 = update_module m
                      (\<lambda>M. M\<lparr> exportsAll := addOwnExports (module_id M) (exports M) (exportsAll M) \<rparr>) s;
               (linked, s2) = linkExportAllSources m (exportAllSources (modules s1 ! m)) s1
           in case linked of
                Inl err \<Rightarrow> (Inl err, s2)
              | Inr _ \<Rightarrow> (Inr m, s2)))"

text \<open>The promise \<^verbatim>\<open>fetchResolvedDependency\<close> returns: fulfilled with the external
  module, or the promise of \<^verbatim>\<open>fetchModule\<close>.\<close>

datatype dependency_result = ExternalDependency nat | ModuleDependency fetch_result

text \<open>\<^verbatim>\<open>fetchResolvedDependency\<close> (lines 357-378).\<close>

definition fetchResolvedDependency ::
  "'u config \<Rightarrow> string \<Rightarrow> string \<Rightarrow> ResolvedId \<Rightarrow> 'u loader \<Rightarrow> (dependency_result, 'u) outcome" where
  "fetchResolvedDependency cfg source importer resolvedId s =
     (if external resolvedId then
        (let s1 =
               (if modulesById s (resolved_id resolvedId) = None
                then s\<lparr> externalModules := externalModules s @
                          [new_ExternalModule (resolved_id resolvedId) (resolved_moduleSideEffects resolvedId)],
                        modulesById := (modulesById s)
                          (resolved_id resolvedId \<mapsto> ExternalRef (length (externalModules s))) \<rparr>
                else s)
         in case modulesById s1 (resolved_id resolvedId) of
              Some (ExternalRef e) \<Rightarrow> (Inr (ExternalDependency e), s1)
            | Some (ModuleRef m) \<Rightarrow> (Inl (errInternalIdCannotBeExternal source importer), s1)
            | None \<Rightarrow> (Inl (errInternalIdCannotBeExternal source importer), s1))
      else
        (case fetchModule cfg (resolved_id resolvedId) (Some importer)
                (resolved_moduleSideEffects resolvedId) False s of
           (Inl err, s1) \<Rightarrow> (Inl err, s1)
         | (Inr fetched, s1) \<Rightarrow> (Inr (ModuleDependency fetched), s1)))"

text \<open>\<^verbatim>\<open>handleMissingImports\<close> (lines 380-397).\<close>

definition handleMissingImports ::
  "'u config \<Rightarrow> ResolvedId option \<Rightarrow> string \<Rightarrow> string \<Rightarrow> 'u loader \<Rightarrow> (ResolvedId, 'u) outcome" where
  "handleMissingImports cfg resolvedId source importer s =
     (case resolvedId of
        None \<Rightarrow>
          if isRelative cfg source then (Inl (errUnresolvedImport source importer), s)
          else
            (let s1 = warn (errUnresolvedImportTreatedAsExternal source importer) s;
                 (sideEffects, u') = hasModuleSideEffects cfg source True (user s1)
             in (Inr \<lparr> resolved_id = source, external = True,
                       resolved_moduleSideEffects = sideEffects \<rparr>,
                 s1\<lparr> user := u' \<rparr>))
      | Some resolved \<Rightarrow> (Inr resolved, s))"

subsection \<open>Entry modules\<close>

text \<open>What the first-result \<^verbatim>\<open>resolveId\<close> hook resolves to: a string, \<^verbatim>\<open>false\<close>,
  \<^verbatim>\<open>null\<close>, \<^verbatim>\<open>undefined\<close>, or an object with its \<^verbatim>\<open>id\<close> when that is a string,
  whether its \<^verbatim>\<open>external\<close> is truthy, and its \<^verbatim>\<open>moduleSideEffects\<close> when that is a
  boolean.\<close>

datatype resolveIdResult =
    ResolveString string
  | ResolveFalse
  | ResolveNull
  | ResolveUndefined
  | ResolveObject "string option" bool "bool option"

text \<open>\<^verbatim>\<open>loadEntryModule\<close>, line 400: the hook is invoked with the specifier and
  \<^verbatim>\<open>undefined\<close> as importer.\<close>

definition loadEntryModule :: "string \<Rightarrow> 'u loader \<Rightarrow> 'u loader" where
  "loadEntryModule unresolvedId s = record_call (hookFirst_resolveId unresolvedId None) s"

text \<open>\<^verbatim>\<open>loadEntryModule\<close>, lines 402-416: the continuation once the hook has settled.\<close>

definition loadEntryModule_resolved ::
  "'u config \<Rightarrow> string \<Rightarrow> bool \<Rightarrow> resolveIdResult settled \<Rightarrow> 'u loader \<Rightarrow> (fetch_result, 'u) outcome" where
  "loadEntryModule_resolved cfg unresolvedId isEntry resolved s =
     (case resolved of
        Inl err \<Rightarrow> (Inl err, s)
      | Inr resolveIdResult \<Rightarrow>
          (case resolveIdResult of
             ResolveFalse \<Rightarrow> (Inl (errEntryCannotBeExternal unresolvedId), s)
           | ResolveObject objectId external' sideEffects \<Rightarrow>
               if external' then (Inl (errEntryCannotBeExternal unresolvedId), s)
               else (case objectId of
                       Some id' \<Rightarrow> fetchModule cfg id' None True isEntry s
                     | None \<Rightarrow> (Inl (errUnresolvedEntry unresolvedId), s))
           | ResolveString id' \<Rightarrow> fetchModule cfg id' None True isEntry s
           | ResolveNull \<Rightarrow> (Inl (errUnresolvedEntry unresolvedId), s)
           | ResolveUndefined \<Rightarrow> (Inl (errUnresolvedEntry unresolvedId), s)))"

record UnresolvedModule =
  fileName :: "string option"
  unresolved_id :: string
  name :: "string option"

text \<open>\<^verbatim>\<open>Set.add\<close> on a set kept in insertion order.\<close>

definition Set_add :: "'a \<Rightarrow> 'a list \<Rightarrow> 'a list" where
  "Set_add x xs = (if x \<in> set xs then xs else xs @ [x])"

text \<open>
  \<^verbatim>\<open>addEntryModules\<close>, lines 132-150: the indices of the call are taken from the
  shared counter and \<^verbatim>\<open>loadEntryModule\<close> is started for every specifier.
\<close>

definition addEntryModules :: "UnresolvedModule list \<Rightarrow> bool \<Rightarrow> 'u loader \<Rightarrow> 'u loader" where
  "addEntryModules unresolvedEntryModules isUserDefined s =
     (let firstIndex = nextEntryModuleIndex s;
          s1 = s\<lparr> nextEntryModuleIndex := nextEntryModuleIndex s + length unresolvedEntryModules \<rparr>;
          s2 = fold (\<lambda>unresolved. loadEntryModule (unresolved_id unresolved)) unresolvedEntryModules s1
      in s2\<lparr> entryCalls := entryCalls s2 @
                [\<lparr> firstEntryModuleIndex = firstIndex,
                   unresolvedCount = length unresolvedEntryModules,
                   call_isUserDefined = isUserDefined \<rparr>] \<rparr>)"

text \<open>\<^verbatim>\<open>addEntryModules\<close>, lines 137-148: the chunk hints of one entry, once its module
  is there.\<close>

definition addEntryModules_named :: "UnresolvedModule \<Rightarrow> bool \<Rightarrow> nat \<Rightarrow> 'u loader \<Rightarrow> 'u loader" where
  "addEntryModules_named unresolved isUserDefined m s =
     (case fileName unresolved of
        Some file \<Rightarrow> update_module m (\<lambda>M. M\<lparr> chunkFileNames := Set_add file (chunkFileNames M) \<rparr>) s
      | None \<Rightarrow>
          (case name unresolved of
             None \<Rightarrow> s
           | Some n \<Rightarrow>
               (let s1 = (if chunkName (modules s ! m) = None
                          then update_module m (\<lambda>M. M\<lparr> chunkName := Some n \<rparr>) s else s)
                in if isUserDefined
                   then update_module m (\<lambda>M. M\<lparr> userChunkNames := Set_add n (userChunkNames M) \<rparr>) s1
                   else s1)))"

text \<open>\<^verbatim>\<open>existingIndexModule.index = ...\<close>: the element \<^verbatim>\<open>find\<close> returned is the first
  one that satisfies the predicate, and it is changed in place.\<close>

fun update_first :: "('a \<Rightarrow> bool) \<Rightarrow> ('a \<Rightarrow> 'a) \<Rightarrow> 'a list \<Rightarrow> 'a list" where
  "update_first P f [] = []"
| "update_first P f (x # xs) = (if P x then f x # xs else x # update_first P f xs)"

text \<open>
  \<^verbatim>\<open>Array.prototype.sort\<close> with a comparison function, as an insertion sort: each
  element in turn is put after the elements of the sorted prefix that the comparison
  does not place behind it.
\<close>

fun sort_insert :: "('a \<Rightarrow> 'a \<Rightarrow> int) \<Rightarrow> 'a \<Rightarrow> 'a list \<Rightarrow> 'a list" where
  "sort_insert compare x [] = [x]"
| "sort_insert compare x (y # ys) =
     (if compare y x > 0 then x # y # ys else y # sort_insert compare x ys)"

definition Array_sort :: "('a \<Rightarrow> 'a \<Rightarrow> int) \<Rightarrow> 'a list \<Rightarrow> 'a list" where
  "Array_sort compare xs = foldl (\<lambda>sorted x. sort_insert compare x sorted) [] xs"

text \<open>The comparison function of lines 167-169.\<close>

definition compareIndex :: "IndexedEntryModule \<Rightarrow> IndexedEntryModule \<Rightarrow> int" where
  "compareIndex a b = (if index a > index b then 1 else - 1)"

text \<open>Lines 156-165: one round of the loop over the entry modules.\<close>

definition indexEntryModule :: "nat \<Rightarrow> nat \<Rightarrow> bool \<Rightarrow> 'u loader \<Rightarrow> 'u loader" where
  "indexEntryModule entryModule moduleIndex isUserDefined s =
     (let s1 = update_module entryModule
                 (\<lambda>M. M\<lparr> isUserDefinedEntryPoint := (isUserDefinedEntryPoint M \<or> isUserDefined) \<rparr>) s;
          sameId = (\<lambda>indexedModule.
                      module_id (modules s1 ! module indexedModule) = module_id (modules s1 ! entryModule))
      in case find sameId (indexedEntryModules s1) of
           None \<Rightarrow>
             s1\<lparr> indexedEntryModules := indexedEntryModules s1 @
                   [\<lparr> index = moduleIndex, module = entryModule \<rparr>] \<rparr>
         | Some existingIndexModule \<Rightarrow>
             s1\<lparr> indexedEntryModules :=
                   update_first sameId
                     (\<lambda>existing. existing\<lparr> index := min (index existing) moduleIndex \<rparr>)
                     (indexedEntryModules s1) \<rparr>)"

fun indexEntryModules :: "nat list \<Rightarrow> nat \<Rightarrow> bool \<Rightarrow> 'u loader \<Rightarrow> 'u loader" where
  "indexEntryModules [] moduleIndex isUserDefined s = s"
| "indexEntryModules (entryModule # rest) moduleIndex isUserDefined s =
     indexEntryModules rest (moduleIndex + 1) isUserDefined
       (indexEntryModule entryModule moduleIndex isUserDefined s)"

text \<open>
  \<^verbatim>\<open>addEntryModules\<close>, lines 153-171: the continuation of the call that took its
  indices from \<open>firstIndex\<close>, once all its entry modules are there
  (\<^verbatim>\<open>Promise.all\<close> hands them over in the order of the specifiers).
\<close>

definition addEntryModules_loaded :: "nat \<Rightarrow> bool \<Rightarrow> nat list \<Rightarrow> 'u loader \<Rightarrow> 'u loader" where
  "addEntryModules_loaded firstIndex isUserDefined entryModules s =
     (let s1 = indexEntryModules entryModules firstIndex isUserDefined s
      in s1\<lparr> indexedEntryModules := Array_sort compareIndex (indexedEntryModules s1) \<rparr>)"

text \<open>Line 174: the \<^verbatim>\<open>entryModules\<close> of the value the call resolves to.\<close>

definition entryModules :: "'u loader \<Rightarrow> nat list" where
  "entryModules s = map module (indexedEntryModules s)"

subsection \<open>Manual chunks of a build\<close>

text \<open>\<^verbatim>\<open>addManualChunks\<close>, lines 182-189: \<^verbatim>\<open>loadEntryModule\<close> is started for every id
  of every alias, in the order of the keys.\<close>

definition addManualChunks :: "(string \<times> string list) list \<Rightarrow> 'u loader \<Rightarrow> 'u loader" where
  "addManualChunks manualChunks s =
     fold (\<lambda>(alias, id'). loadEntryModule id')
       (concat (map (\<lambda>(alias, ids). map (\<lambda>id'. (alias, id')) ids) manualChunks)) s"

text \<open>\<^verbatim>\<open>addManualChunks\<close>, lines 191-194: the loop over the loaded modules, each with
  the alias of its position; an error ends the loop.\<close>

fun addManualChunks_loaded :: "(string \<times> nat) list \<Rightarrow> 'u loader \<Rightarrow> (unit, 'u) outcome" where
  "addManualChunks_loaded [] s = (Inr (), s)"
| "addManualChunks_loaded ((alias, m) # rest) s =
     (case addModuleToManualChunk alias m s of
        (Inl err, s1) \<Rightarrow> (Inl err, s1)
      | (Inr _, s1) \<Rightarrow> addManualChunks_loaded rest s1)"

subsection \<open>Waiting for the batches in flight\<close>

definition latestLoadModulesPromise :: "'u loader \<Rightarrow> nat" where
  "latestLoadModulesPromise s = length (loadModulesCalls s)"

definition promise_state :: "'u loader \<Rightarrow> nat \<Rightarrow> unit promise" where
  "promise_state s p =
     (case p of 0 \<Rightarrow> Some (Inr ()) | Suc k \<Rightarrow> combinedPromise (loadModulesCalls s ! k))"

text \<open>
  \<^verbatim>\<open>awaitLoadModulesPromise\<close>, lines 225-231, up to its first suspension: the new
  combination of the argument with the promise the field held is stored in the field,
  and \<^verbatim>\<open>getCombinedPromise\<close> starts to await it.
\<close>

definition awaitLoadModulesPromise :: "newModules promise \<Rightarrow> 'u loader \<Rightarrow> 'u loader" where
  "awaitLoadModulesPromise loadNewModulesPromise' s =
     (let latest = Promise_all_pair loadNewModulesPromise'
                     (promise_state s (latestLoadModulesPromise s));
          startingPromise = Suc (latestLoadModulesPromise s)
      in s\<lparr> loadModulesCalls := loadModulesCalls s @
             [\<lparr> loadNewModulesPromise = loadNewModulesPromise', combinedPromise = latest,
                stage = AwaitStartingPromise startingPromise \<rparr>] \<rparr>)"

text \<open>
  A \<^verbatim>\<open>loadNewModulesPromise\<close> settles, and with it every combination that waited
  for nothing else: each combination is \<^verbatim>\<open>Promise.all\<close> of its own argument and the
  combination before it.  The engine settles a combination some turns of the job
  queue after its inputs; the loader observes that only where an \<^verbatim>\<open>await\<close> resumes,
  which is a step of its own below.
\<close>

fun settle_combined :: "unit promise \<Rightarrow> LoadModulesCall list \<Rightarrow> LoadModulesCall list" where
  "settle_combined previous [] = []"
| "settle_combined previous (c # cs) =
     (let latest = (case combinedPromise c of
                      None \<Rightarrow> Promise_all_pair (loadNewModulesPromise c) previous
                    | Some settled \<Rightarrow> Some settled)
      in c\<lparr> combinedPromise := latest \<rparr> # settle_combined latest cs)"

definition settle_loadNewModulesPromise :: "nat \<Rightarrow> newModules settled \<Rightarrow> 'u loader \<Rightarrow> 'u loader" where
  "settle_loadNewModulesPromise k result s =
     s\<lparr> loadModulesCalls :=
          settle_combined (Some (Inr ()))
            ((loadModulesCalls s)
               [k := (loadModulesCalls s ! k)\<lparr> loadNewModulesPromise := Some result \<rparr>]) \<rparr>"

text \<open>
  \<^verbatim>\<open>getCombinedPromise\<close>, lines 231-236, when its \<^verbatim>\<open>await startingPromise\<close> resumes: a
  rejection leaves \<^verbatim>\<open>awaitLoadModulesPromise\<close> and its caller with the reason; after
  a fulfilment, the function starts over with the promise the field holds by then if
  that is another one, and returns otherwise.
\<close>

definition getCombinedPromise_resumed :: "nat \<Rightarrow> 'u loader \<Rightarrow> 'u loader" where
  "getCombinedPromise_resumed k s =
     (case stage (loadModulesCalls s ! k) of
        AwaitStartingPromise startingPromise \<Rightarrow>
          (case promise_state s startingPromise of
             None \<Rightarrow> s
           | Some (Inl err) \<Rightarrow>
               s\<lparr> loadModulesCalls := (loadModulesCalls s)
                     [k := (loadModulesCalls s ! k)\<lparr> stage := Completed \<rparr>],
                  settledCalls := settledCalls s @ [Inl err] \<rparr>
           | Some (Inr fulfilled) \<Rightarrow>
               if latestLoadModulesPromise s \<noteq> startingPromise
               then s\<lparr> loadModulesCalls := (loadModulesCalls s)
                         [k := (loadModulesCalls s ! k)
                                 \<lparr> stage := AwaitStartingPromise (latestLoadModulesPromise s) \<rparr>] \<rparr>
               else s\<lparr> loadModulesCalls := (loadModulesCalls s)
                         [k := (loadModulesCalls s ! k)\<lparr> stage := ReturnLoadNewModulesPromise \<rparr>] \<rparr>)
      | ReturnLoadNewModulesPromise \<Rightarrow> s
      | Completed \<Rightarrow> s)"

text \<open>
  Line 237 and lines 172-177: the caller of \<^verbatim>\<open>awaitLoadModulesPromise\<close> resumes with
  what \<^verbatim>\<open>loadNewModulesPromise\<close> settled to.  \<^verbatim>\<open>addEntryModules\<close> reads the entry
  list at that moment and its promise is fulfilled; the promise of
  \<^verbatim>\<open>addManualChunks\<close> is the one of \<^verbatim>\<open>awaitLoadModulesPromise\<close>.
\<close>

definition awaitLoadModulesPromise_returned :: "nat \<Rightarrow> 'u loader \<Rightarrow> 'u loader" where
  "awaitLoadModulesPromise_returned k s =
     (case stage (loadModulesCalls s ! k) of
        ReturnLoadNewModulesPromise \<Rightarrow>
          (case loadNewModulesPromise (loadModulesCalls s ! k) of
             None \<Rightarrow> s
           | Some result \<Rightarrow>
               s\<lparr> loadModulesCalls := (loadModulesCalls s)
                     [k := (loadModulesCalls s ! k)\<lparr> stage := Completed \<rparr>],
                  settledCalls := settledCalls s @
                     [case result of
                        Inl err \<Rightarrow> Inl err
                      | Inr (NewEntryModules newEntryModules) \<Rightarrow>
                          Inr (EntryModulesResult (entryModules s) newEntryModules)
                      | Inr NoModules \<Rightarrow> Inr ManualChunksResult] \<rparr>)
      | AwaitStartingPromise startingPromise \<Rightarrow> s
      | Completed \<Rightarrow> s)"

text \<open>
  \<^verbatim>\<open>addEntryModules\<close>, lines 152-172: the continuation of the call, which ends in
  \<^verbatim>\<open>awaitLoadModulesPromise\<close> with the promise of lines 153-171; that promise is
  fulfilled by then, since nothing in those lines awaits or throws.
\<close>

definition addEntryModules_continued :: "nat \<Rightarrow> nat list \<Rightarrow> 'u loader \<Rightarrow> 'u loader" where
  "addEntryModules_continued k entryModules' s =
     awaitLoadModulesPromise (Some (Inr (NewEntryModules entryModules')))
       (addEntryModules_loaded (firstEntryModuleIndex (entryCalls s ! k))
          (call_isUserDefined (entryCalls s ! k)) entryModules'
          (s\<lparr> entryCalls := take k (entryCalls s) @ drop (Suc k) (entryCalls s) \<rparr>))"

text \<open>Line 152, when \<^verbatim>\<open>Promise.all(_)\<close> is rejected: the call ends there, and its
  promise is rejected with the reason.\<close>

definition addEntryModules_failed :: "nat \<Rightarrow> error \<Rightarrow> 'u loader \<Rightarrow> 'u loader" where
  "addEntryModules_failed k err s =
     s\<lparr> entryCalls := take k (entryCalls s) @ drop (Suc k) (entryCalls s),
        settledCalls := settledCalls s @ [Inl err] \<rparr>"

text \<open>
  \<^verbatim>\<open>addManualChunks\<close>, lines 190-196: the promise of the loop is created, pending on
  the modules, and handed to \<^verbatim>\<open>awaitLoadModulesPromise\<close> before the call returns.
\<close>

definition addManualChunks_awaited :: "(string \<times> string list) list \<Rightarrow> 'u loader \<Rightarrow> 'u loader" where
  "addManualChunks_awaited manualChunks s =
     awaitLoadModulesPromise None (addManualChunks manualChunks s)"

text \<open>
  Lines 190-195, once \<^verbatim>\<open>Promise.all(_)\<close> has settled: a rejection, or an error of
  the loop, rejects the promise of invocation \<open>k\<close>; otherwise it is fulfilled.
\<close>

definition addManualChunks_settled ::
  "nat \<Rightarrow> ((string \<times> nat) list) settled \<Rightarrow> 'u loader \<Rightarrow> 'u loader" where
  "addManualChunks_settled k loaded s =
     (case loaded of
        Inl err \<Rightarrow> settle_loadNewModulesPromise k (Inl err) s
      | Inr loadedModules \<Rightarrow>
          (case addManualChunks_loaded loadedModules s of
             (Inl err, s1) \<Rightarrow> settle_loadNewModulesPromise k (Inl err) s1
           | (Inr _, s1) \<Rightarrow> settle_loadNewModulesPromise k (Inr NoModules) s1))"

subsection \<open>A build as a sequence of steps\<close>

text \<open>
  Between two suspension points exactly one of the pieces above runs.  An event
  names the piece and carries what the environment contributes (the arguments of a
  call, or how the awaited promise settled).  A continuation refers to the module it
  was created for, the continuation of an \<^verbatim>\<open>addEntryModules\<close> call to the call
  and its modules, one per specifier, and a continuation in
  \<^verbatim>\<open>awaitLoadModulesPromise\<close> to the invocation; an event that refers to something
  that does not exist, or resumes what is still pending, cannot occur, and \<open>step\<close>
  leaves the state as it is.  Every interleaving the scheduler can produce is a list
  of events.
\<close>

datatype event =
    EvFetchModule string "string option" bool bool
  | EvFetchModuleLoaded nat "string option" "load_result settled"
  | EvFetchModuleTransformed nat "ModuleSource settled"
  | EvFetchModuleLinked nat "(unit list) settled"
  | EvFetchResolvedDependency string string ResolvedId
  | EvHandleMissingImports "ResolvedId option" string string
  | EvLoadEntryModuleResolved string bool "resolveIdResult settled"
  | EvAddEntryModules "UnresolvedModule list" bool
  | EvEntryModuleNamed UnresolvedModule bool nat
  | EvEntryModulesLoaded nat "nat list"
  | EvEntryModulesFailed nat error
  | EvAddManualChunks "(string \<times> string list) list"
  | EvManualChunksLoaded nat "((string \<times> nat) list) settled"
  | EvGetCombinedPromise nat
  | EvLoadModulesReturned nat

definition valid_module :: "'u loader \<Rightarrow> nat \<Rightarrow> bool" where
  "valid_module s m = (m < length (modules s))"

fun step :: "'u config \<Rightarrow> event \<Rightarrow> 'u loader \<Rightarrow> 'u loader" where
  "step cfg (EvFetchModule id' importer sideEffects isEntry) s =
     snd (fetchModule cfg id' importer sideEffects isEntry s)"
| "step cfg (EvFetchModuleLoaded m importer loaded) s =
     (if valid_module s m then snd (fetchModule_loaded cfg m importer loaded s) else s)"
| "step cfg (EvFetchModuleTransformed m transformed) s =
     (if valid_module s m then snd (fetchModule_transformed m transformed s) else s)"
| "step cfg (EvFetchModuleLinked m dependencies) s =
     (if valid_module s m then snd (fetchModule_linked m dependencies s) else s)"
| "step cfg (EvFetchResolvedDependency source importer resolvedId) s =
     snd (fetchResolvedDependency cfg source importer resolvedId s)"
| "step cfg (EvHandleMissingImports resolvedId source importer) s =
     snd (handleMissingImports cfg resolvedId source importer s)"
| "step cfg (EvLoadEntryModuleResolved unresolvedId isEntry resolved) s =
     snd (loadEntryModule_resolved cfg unresolvedId isEntry resolved s)"
| "step cfg (EvAddEntryModules unresolvedEntryModules isUserDefined) s =
     addEntryModules unresolvedEntryModules isUserDefined s"
| "step cfg (EvEntryModuleNamed unresolved isUserDefined m) s =
     (if valid_module s m then addEntryModules_named unresolved isUserDefined m s else s)"
| "step cfg (EvEntryModulesLoaded k loaded) s =
     (if k < length (entryCalls s) \<and> length loaded = unresolvedCount (entryCalls s ! k) \<and>
         list_all (valid_module s) loaded
      then addEntryModules_continued k loaded s
      else s)"
| "step cfg (EvEntryModulesFailed k err) s =
     (if k < length (entryCalls s) then addEntryModules_failed k err s else s)"
| "step cfg (EvAddManualChunks manualChunks) s = addManualChunks_awaited manualChunks s"
| "step cfg (EvManualChunksLoaded k loaded) s =
     (if k < length (loadModulesCalls s) \<and> loadNewModulesPromise (loadModulesCalls s ! k) = None \<and>
         (case loaded of
            Inl err \<Rightarrow> True
          | Inr loadedModules \<Rightarrow> list_all (valid_module s) (map snd loadedModules))
      then addManualChunks_settled k loaded s
      else s)"
| "step cfg (EvGetCombinedPromise k) s =
     (if k < length (loadModulesCalls s) then getCombinedPromise_resumed k s else s)"
| "step cfg (EvLoadModulesReturned k) s =
     (if k < length (loadModulesCalls s) then awaitLoadModulesPromise_returned k s else s)"

definition run :: "'u config \<Rightarrow> event list \<Rightarrow> 'u loader \<Rightarrow> 'u loader" where
  "run cfg events s = fold (step cfg) events s"

subsection \<open>The indices of the entry modules\<close>

text \<open>
  The entry list as the pairs of module id and index, in the order of the list.
\<close>

definition entry_table :: "'u loader \<Rightarrow> (string \<times> nat) list" where
  "entry_table s =
     map (\<lambda>indexed. (module_id (modules s ! module indexed), index indexed)) (indexedEntryModules s)"

text \<open>
  The indices a step hands to modules: the continuation of an \<^verbatim>\<open>addEntryModules\<close>
  call walks over its modules with \<^verbatim>\<open>moduleIndex\<close> starting at the call's
  \<^verbatim>\<open>firstEntryModuleIndex\<close> (lines 154-165), so the module at position \<open>i\<close> of the
  call is handed the index \<^verbatim>\<open>firstEntryModuleIndex + i\<close>.  \<open>assignments\<close> collects
  what the steps of a build hand out, in the order of the steps.
\<close>

fun assigned :: "event \<Rightarrow> 'u loader \<Rightarrow> (string \<times> nat) list" where
  "assigned (EvEntryModulesLoaded k loaded) s =
     (if k < length (entryCalls s) \<and> length loaded = unresolvedCount (entryCalls s ! k) \<and>
         list_all (valid_module s) loaded
      then zip (map (\<lambda>m. module_id (modules s ! m)) loaded)
             [firstEntryModuleIndex (entryCalls s ! k) ..<
              firstEntryModuleIndex (entryCalls s ! k) + length loaded]
      else [])"
| "assigned ev s = []"

fun assignments :: "'u config \<Rightarrow> event list \<Rightarrow> 'u loader \<Rightarrow> (string \<times> nat) list" where
  "assignments cfg [] s = []"
| "assignments cfg (ev # events) s = assigned ev s @ assignments cfg events (step cfg ev s)"

text \<open>The least index handed to a module id, if any.\<close>

fun min_index :: "(string \<times> nat) list \<Rightarrow> string \<Rightarrow> nat option" where
  "min_index [] x = None"
| "min_index ((y, j) # handed) x =
     (if y = x then Some (case min_index handed x of None \<Rightarrow> j | Some k \<Rightarrow> min j k)
      else min_index handed x)"

text \<open>The part of the loader that only \<^verbatim>\<open>addEntryModules\<close> writes.\<close>

definition entry_view :: "'u loader \<Rightarrow> IndexedEntryModule list \<times> nat \<times> EntryCall list" where
  "entry_view s = (indexedEntryModules s, nextEntryModuleIndex s, entryCalls s)"

text \<open>
  What holds of the entry list and the indices handed out so far, after every step:
  the list has one element per module id, with the least index handed to that id; it
  is sorted; its modules are in the store; no index was handed out twice, every index
  handed out is below the counter and outside the range of every call that still
  waits; the ranges of the waiting calls follow one another below the counter.
\<close>

definition entries_inv :: "'u loader \<Rightarrow> (string \<times> nat) list \<Rightarrow> bool" where
  "entries_inv s handed \<longleftrightarrow>
     distinct (map fst (entry_table s)) \<and>
     map_of (entry_table s) = min_index handed \<and>
     sorted (map index (indexedEntryModules s)) \<and>
     (\<forall>e \<in> set (indexedEntryModules s). module e < length (modules s)) \<and>
     distinct (map snd handed) \<and>
     (\<forall>(x, j) \<in> set handed.
        j < nextEntryModuleIndex s \<and>
        (\<forall>c \<in> set (entryCalls s).
           j < firstEntryModuleIndex c \<or> firstEntryModuleIndex c + unresolvedCount c \<le> j)) \<and>
     sorted_wrt (\<lambda>c d. firstEntryModuleIndex c + unresolvedCount c \<le> firstEntryModuleIndex d)
       (entryCalls s) \<and>
     (\<forall>c \<in> set (entryCalls s).
        firstEntryModuleIndex c + unresolvedCount c \<le> nextEntryModuleIndex s)"

subsection \<open>Identities\<close>

text \<open>
  What decides which entity an id denotes: the registry, the ids of the modules
  created so far and the ids of the external modules created so far, in the order of
  creation.  The registry is sound for the store when every created entity is
  registered under its own id, and every registered reference leads to an entity of
  that id.
\<close>

definition identities :: "'u loader \<Rightarrow> (string \<rightharpoonup> entity_ref) \<times> string list \<times> string list" where
  "identities s = (modulesById s, map module_id (modules s), map external_id (externalModules s))"

definition registered :: "(string \<rightharpoonup> entity_ref) \<times> string list \<times> string list \<Rightarrow> bool" where
  "registered ids =
     (case ids of (registry, moduleIds, externalIds) \<Rightarrow>
        (\<forall>m < length moduleIds. registry (moduleIds ! m) = Some (ModuleRef m)) \<and>
        (\<forall>e < length externalIds. registry (externalIds ! e) = Some (ExternalRef e)) \<and>
        (\<forall>id' m. registry id' = Some (ModuleRef m) \<longrightarrow> m < length moduleIds \<and> moduleIds ! m = id') \<and>
        (\<forall>id' e. registry id' = Some (ExternalRef e) \<longrightarrow> e < length externalIds \<and> externalIds ! e = id'))"

definition registry_inv :: "'u loader \<Rightarrow> bool" where
  "registry_inv s = registered (identities s)"

subsection \<open>A configuration and a loader for the examples\<close>

text \<open>A relative path starts with \<^verbatim>\<open>./\<close> or \<^verbatim>\<open>../\<close>; there are no callbacks and no
  cache.  The loader has fetched \<^verbatim>\<open>a.js\<close> and the external dependency \<^verbatim>\<open>lodash\<close>.\<close>

definition example_isRelative :: "string \<Rightarrow> bool" where
  "example_isRelative path = (take 2 path = ''./'' \<or> take 3 path = ''../'')"

definition example_config :: "nat config" where
  "example_config =
     ModuleLoader_config OptUndefined None (MseBool True) OptUndefined Map.empty example_isRelative"

definition example_loader :: "nat loader" where
  "example_loader =
     run example_config
       [EvFetchModule ''a.js'' None True False,
        EvFetchResolvedDependency ''lodash'' ''a.js''
          \<lparr> resolved_id = ''lodash'', external = True, resolved_moduleSideEffects = True \<rparr>]
       (ModuleLoader_init (MseBool True) 0)"

text \<open>A build in which \<^verbatim>\<open>a.js\<close> is requested twice and \<^verbatim>\<open>lodash\<close> twice.\<close>

definition example_build :: "event list" where
  "example_build =
     [EvFetchModule ''a.js'' None True True,
      EvFetchModule ''a.js'' (Some ''b.js'') True False,
      EvFetchResolvedDependency ''lodash'' ''a.js''
        \<lparr> resolved_id = ''lodash'', external = True, resolved_moduleSideEffects = True \<rparr>,
      EvFetchModuleTransformed 0
        (Inr \<lparr> source_exports = [], source_exportAllSources = [], source_sources = [''lodash''] \<rparr>),
      EvFetchResolvedDependency ''lodash'' ''b.js''
        \<lparr> resolved_id = ''lodash'', external = True, resolved_moduleSideEffects = True \<rparr>]"


text \<open>
  Two calls of \<^verbatim>\<open>addEntryModules\<close>, for \<^verbatim>\<open>a\<close> and \<^verbatim>\<open>b\<close> and then for \<^verbatim>\<open>c\<close> and
  \<^verbatim>\<open>a\<close>; the modules are created in the order \<^verbatim>\<open>c.js\<close>, \<^verbatim>\<open>a.js\<close>, \<^verbatim>\<open>b.js\<close>, and
  the second call completes before the first.
\<close>

definition example_entries :: "event list" where
  "example_entries =
     [EvAddEntryModules
        [\<lparr> fileName = None, unresolved_id = ''a'', name = Some ''a'' \<rparr>,
         \<lparr> fileName = None, unresolved_id = ''b'', name = None \<rparr>] True,
      EvAddEntryModules
        [\<lparr> fileName = None, unresolved_id = ''c'', name = None \<rparr>,
         \<lparr> fileName = None, unresolved_id = ''a'', name = None \<rparr>] True,
      EvLoadEntryModuleResolved ''c'' True (Inr (ResolveString ''c.js'')),
      EvLoadEntryModuleResolved ''a'' True (Inr (ResolveString ''a.js'')),
      EvLoadEntryModuleResolved ''b'' True (Inr (ResolveString ''b.js'')),
      EvLoadEntryModuleResolved ''a'' True (Inr (ResolveString ''a.js'')),
      EvEntryModulesLoaded 1 [0, 1],
      EvEntryModulesLoaded 0 [1, 2]]"

text \<open>
  The same two calls with every step of the build: \<^verbatim>\<open>c.js\<close> and \<^verbatim>\<open>a.js\<close> are
  resolved, loaded, transformed and linked while the \<^verbatim>\<open>resolveId\<close> hook has not
  answered for \<^verbatim>\<open>b\<close>; the second call continues, waits in
  \<^verbatim>\<open>awaitLoadModulesPromise\<close> and returns (the first fourteen steps); then \<^verbatim>\<open>b.js\<close>
  is resolved and fetched, and the first call continues and returns.
\<close>

definition example_overlapping_calls :: "event list" where
  "example_overlapping_calls =
     [EvAddEntryModules
        [\<lparr> fileName = None, unresolved_id = ''a'', name = Some ''a'' \<rparr>,
         \<lparr> fileName = None, unresolved_id = ''b'', name = None \<rparr>] True,
      EvAddEntryModules
        [\<lparr> fileName = None, unresolved_id = ''c'', name = None \<rparr>,
         \<lparr> fileName = None, unresolved_id = ''a'', name = None \<rparr>] False,
      EvLoadEntryModuleResolved ''c'' True (Inr (ResolveString ''c.js'')),
      EvLoadEntryModuleResolved ''a'' True (Inr (ResolveString ''a.js'')),
      EvLoadEntryModuleResolved ''a'' True (Inr (ResolveString ''a.js'')),
      EvFetchModuleLoaded 0 None (Inr (LoadString ''export default 3'')),
      EvFetchModuleTransformed 0
        (Inr \<lparr> source_exports = [''default''], source_exportAllSources = [], source_sources = [] \<rparr>),
      EvFetchModuleLinked 0 (Inr []),
      EvFetchModuleLoaded 1 None (Inr (LoadString ''export default 1'')),
      EvFetchModuleTransformed 1
        (Inr \<lparr> source_exports = [''default''], source_exportAllSources = [], source_sources = [] \<rparr>),
      EvFetchModuleLinked 1 (Inr []),
      EvEntryModulesLoaded 1 [0, 1],
      EvGetCombinedPromise 0,
      EvLoadModulesReturned 0,
      EvLoadEntryModuleResolved ''b'' True (Inr (ResolveString ''b.js'')),
      EvFetchModuleLoaded 2 None (Inr (LoadString ''export default 2'')),
      EvFetchModuleTransformed 2
        (Inr \<lparr> source_exports = [''default''], source_exportAllSources = [], source_sources = [] \<rparr>),
      EvFetchModuleLinked 2 (Inr []),
      EvEntryModulesLoaded 0 [1, 2],
      EvGetCombinedPromise 1,
      EvLoadModulesReturned 1]"

text \<open>
  A call of \<^verbatim>\<open>addManualChunks\<close> for \<^verbatim>\<open>a\<close> that is in flight during the first
  twelve of these steps, until the second \<^verbatim>\<open>addEntryModules\<close> call has continued;
  then the \<^verbatim>\<open>await\<close> of that call is tried.
\<close>

definition example_manual_chunks_in_flight :: "event list" where
  "example_manual_chunks_in_flight =
     EvAddManualChunks [(''grp'', [''a''])] # take 12 example_overlapping_calls @
     [EvGetCombinedPromise 1, EvLoadModulesReturned 1]"

section \<open>Properties\<close>

subsection \<open>The registry holds one entity per id\<close>

lemma map_update_same:
  assumes "\<And>x. g (f x) = g x"
  shows "map g (xs[m := f (xs ! m)]) = map g xs"
proof (cases "m < length xs")
  case True
  then show ?thesis by (simp add: map_update assms list_update_same_conv)
next
  case False
  then show ?thesis by (simp add: not_less list_update_beyond)
qed

lemma identities_update_module:
  "(\<And>M. module_id (f M) = module_id M) \<Longrightarrow> identities (update_module m f s) = identities s"
  by (simp add: identities_def update_module_def map_update_same)

lemma identities_warn [simp]: "identities (warn w s) = identities s"
  by (simp add: identities_def warn_def)

lemma identities_record_call [simp]: "identities (record_call c s) = identities s"
  by (simp add: identities_def record_call_def)

lemma identities_simps [simp]:
  "identities (s\<lparr> user := u \<rparr>) = identities s"
  "identities (s\<lparr> calls := c \<rparr>) = identities s"
  "identities (s\<lparr> warnings := w \<rparr>) = identities s"
  "identities (s\<lparr> manualChunkModules := mc \<rparr>) = identities s"
  "identities (s\<lparr> indexedEntryModules := ie \<rparr>) = identities s"
  "identities (s\<lparr> nextEntryModuleIndex := n \<rparr>) = identities s"
  "identities (s\<lparr> entryCalls := ec \<rparr>) = identities s"
  "identities (s\<lparr> loadModulesCalls := lc \<rparr>) = identities s"
  "identities (s\<lparr> settledCalls := sc \<rparr>) = identities s"
  by (simp_all add: identities_def)

lemma identities_addModuleToManualChunk [simp]:
  "identities (snd (addModuleToManualChunk alias m s)) = identities s"
  by (simp add: addModuleToManualChunk_def Let_def identities_update_module split: option.splits)

lemma addModuleToManualChunk_identities:
  "addModuleToManualChunk al m s = (r, s') \<Longrightarrow> identities s' = identities s"
  using identities_addModuleToManualChunk [of al m s] by simp

lemma identities_fetchModule:
  "identities (snd (fetchModule cfg id' importer sideEffects isEntry s)) =
     (case modulesById s id' of
        Some existing \<Rightarrow> identities s
      | None \<Rightarrow> ((modulesById s)(id' \<mapsto> ModuleRef (length (modules s))),
                 map module_id (modules s) @ [id'],
                 map external_id (externalModules s)))"
proof (cases "modulesById s id'")
  case (Some existing)
  then show ?thesis
    by (cases existing) (simp_all add: fetchModule_def identities_update_module)
next
  case None
  define s2 where "s2 = s\<lparr> modules := modules s @ [new_Module id' sideEffects isEntry],
                          modulesById := (modulesById s)(id' \<mapsto> ModuleRef (length (modules s))) \<rparr>"
  have ids2: "identities s2 = ((modulesById s)(id' \<mapsto> ModuleRef (length (modules s))),
                 map module_id (modules s) @ [id'], map external_id (externalModules s))"
    by (simp add: s2_def identities_def new_Module_def)
  obtain al u' where g: "getManualChunk cfg id' (user s2) = (al, u')"
    by (cases "getManualChunk cfg id' (user s2)")
  have "identities (snd (fetchModule cfg id' importer sideEffects isEntry s)) = identities s2"
    using None g
    by (auto simp: fetchModule_def Let_def s2_def [symmetric] dest: addModuleToManualChunk_identities
        split: prod.splits option.splits sum.splits)
  then show ?thesis using None ids2 by simp
qed

lemma registered_alloc_module:
  assumes "registered (registry, moduleIds, externalIds)" and "registry id' = None"
  shows "registered (registry(id' \<mapsto> ModuleRef (length moduleIds)), moduleIds @ [id'], externalIds)"
  using assms unfolding registered_def
  by (auto simp: nth_append) (metis less_SucI option.distinct(1))+

lemma registered_alloc_external:
  assumes "registered (registry, moduleIds, externalIds)" and "registry id' = None"
  shows "registered (registry(id' \<mapsto> ExternalRef (length externalIds)), moduleIds, externalIds @ [id'])"
  using assms unfolding registered_def
  by (auto simp: nth_append) (metis less_SucI option.distinct(1))+

lemma registry_inv_fetchModule:
  "registry_inv s \<Longrightarrow> registry_inv (snd (fetchModule cfg id' importer sideEffects isEntry s))"
  unfolding registry_inv_def identities_fetchModule
  using registered_alloc_module [of "modulesById s" "map module_id (modules s)" _ id']
  by (cases "modulesById s id'") (simp_all add: identities_def)

lemma identities_fetchModule_loaded [simp]:
  "identities (snd (fetchModule_loaded cfg m importer loaded s)) = identities s"
  by (simp add: fetchModule_loaded_def Let_def identities_update_module
      split: sum.splits option.splits prod.splits)

lemma registered_lookup:
  "registered (registry, moduleIds, externalIds) \<Longrightarrow> m < length moduleIds \<Longrightarrow>
     registry (moduleIds ! m) = Some (ModuleRef m)"
  by (simp add: registered_def)

lemma identities_fetchModule_transformed:
  assumes "registry_inv s" and "valid_module s m"
  shows "identities (snd (fetchModule_transformed m transformed s)) = identities s"
proof (cases transformed)
  case (Inl err)
  then show ?thesis by (simp add: fetchModule_transformed_def)
next
  case (Inr source)
  have "modulesById s (module_id (modules s ! m)) = Some (ModuleRef m)"
    using assms registered_lookup [of "modulesById s" "map module_id (modules s)" _ m]
    by (simp add: registry_inv_def identities_def valid_module_def)
  moreover have "module_id (modules (update_module m (setSource source) s) ! m) = module_id (modules s ! m)"
    using assms(2) by (simp add: update_module_def valid_module_def setSource_def)
  moreover have "modulesById (update_module m (setSource source) s) = modulesById s"
    by (simp add: update_module_def)
  moreover have "identities (update_module m (setSource source) s) = identities s"
    by (simp add: identities_update_module setSource_def)
  ultimately show ?thesis
    using Inr by (simp add: fetchModule_transformed_def Let_def identities_def map_upd_triv)
qed

lemma identities_mergeExportsAll [simp]:
  "identities (mergeExportsAll m x names s) = identities s"
  by (induction m x names s rule: mergeExportsAll.induct) (simp_all add: identities_update_module)

lemma identities_linkExportAllSources [simp]:
  "identities (snd (linkExportAllSources m srcs s)) = identities s"
  by (induction m srcs s rule: linkExportAllSources.induct)
     (simp_all split: option.splits entity_ref.splits)

lemma identities_fetchModule_linked [simp]:
  "identities (snd (fetchModule_linked m dependencies s)) = identities s"
proof (cases dependencies)
  case (Inl err)
  then show ?thesis by (simp add: fetchModule_linked_def)
next
  case (Inr fetched)
  define s1 where "s1 = update_module m
      (\<lambda>M. M\<lparr> exportsAll := addOwnExports (module_id M) (exports M) (exportsAll M) \<rparr>) s"
  obtain r s2 where l: "linkExportAllSources m (exportAllSources (modules s1 ! m)) s1 = (r, s2)"
    by (cases "linkExportAllSources m (exportAllSources (modules s1 ! m)) s1")
  have "identities s1 = identities s"
    by (simp add: s1_def identities_update_module)
  moreover have "identities s2 = identities s1"
    using identities_linkExportAllSources [of m "exportAllSources (modules s1 ! m)" s1] l by simp
  ultimately show ?thesis
    using Inr l by (cases r) (simp_all add: fetchModule_linked_def Let_def s1_def [symmetric])
qed

lemma registry_inv_fetchResolvedDependency:
  assumes "registry_inv s"
  shows "registry_inv (snd (fetchResolvedDependency cfg source importer resolvedId s))"
proof (cases "external resolvedId")
  case True
  show ?thesis
  proof (cases "modulesById s (resolved_id resolvedId)")
    case None
    then show ?thesis
      using True assms
        registered_alloc_external [of "modulesById s" _ "map external_id (externalModules s)" "resolved_id resolvedId"]
      by (simp add: fetchResolvedDependency_def registry_inv_def identities_def new_ExternalModule_def)
  next
    case (Some r)
    then show ?thesis
      using True assms
      by (simp add: fetchResolvedDependency_def split: entity_ref.splits)
  qed
next
  case False
  obtain r s1 where f: "fetchModule cfg (resolved_id resolvedId) (Some importer)
        (resolved_moduleSideEffects resolvedId) False s = (r, s1)"
    by (cases "fetchModule cfg (resolved_id resolvedId) (Some importer)
        (resolved_moduleSideEffects resolvedId) False s")
  have "registry_inv s1"
    using registry_inv_fetchModule [OF assms, of cfg "resolved_id resolvedId" "Some importer"
        "resolved_moduleSideEffects resolvedId" False] f by simp
  then show ?thesis
    using False f by (cases r) (simp_all add: fetchResolvedDependency_def)
qed

lemma identities_handleMissingImports [simp]:
  "identities (snd (handleMissingImports cfg resolvedId source importer s)) = identities s"
  by (simp add: handleMissingImports_def Let_def split: option.splits prod.splits)

lemma registry_inv_loadEntryModule_resolved:
  "registry_inv s \<Longrightarrow> registry_inv (snd (loadEntryModule_resolved cfg unresolvedId isEntry resolved s))"
  by (simp add: loadEntryModule_resolved_def registry_inv_fetchModule
      split: sum.splits resolveIdResult.splits option.splits)

lemma identities_loadEntryModule [simp]: "identities (loadEntryModule unresolvedId s) = identities s"
  by (simp add: loadEntryModule_def)

lemma identities_fold_loadEntryModule [simp]:
  "identities (fold (\<lambda>x. loadEntryModule (f x)) xs s) = identities s"
  by (induction xs arbitrary: s) simp_all

lemma identities_addEntryModules [simp]:
  "identities (addEntryModules unresolvedEntryModules isUserDefined s) = identities s"
  by (simp add: addEntryModules_def Let_def)

lemma identities_addEntryModules_named [simp]:
  "identities (addEntryModules_named unresolved isUserDefined m s) = identities s"
  by (simp add: addEntryModules_named_def Let_def identities_update_module split: option.splits)

lemma identities_indexEntryModule [simp]:
  "identities (indexEntryModule entryModule moduleIndex isUserDefined s) = identities s"
  by (simp add: indexEntryModule_def Let_def identities_update_module split: option.splits)

lemma identities_indexEntryModules [simp]:
  "identities (indexEntryModules loaded moduleIndex isUserDefined s) = identities s"
  by (induction loaded arbitrary: moduleIndex s) simp_all

lemma identities_addEntryModules_loaded [simp]:
  "identities (addEntryModules_loaded firstIndex isUserDefined loaded s) = identities s"
  by (simp add: addEntryModules_loaded_def Let_def)

lemma identities_addManualChunks [simp]:
  "identities (addManualChunks manualChunks s) = identities s"
proof -
  have "identities (fold (\<lambda>(al, id'). loadEntryModule id') xs s) = identities s" for xs
    by (induction xs arbitrary: s) (simp_all add: case_prod_unfold)
  then show ?thesis by (simp add: addManualChunks_def)
qed

lemma identities_addManualChunks_loaded [simp]:
  "identities (snd (addManualChunks_loaded loaded s)) = identities s"
proof (induction loaded arbitrary: s)
  case Nil
  then show ?case by simp
next
  case (Cons p rest)
  obtain al m where p: "p = (al, m)" by (cases p)
  obtain r s1 where a: "addModuleToManualChunk al m s = (r, s1)"
    by (cases "addModuleToManualChunk al m s")
  have "identities s1 = identities s"
    using a by (rule addModuleToManualChunk_identities)
  then show ?case
    using Cons.IH [of s1] p a by (cases r) simp_all
qed


lemma identities_awaitLoadModulesPromise [simp]:
  "identities (awaitLoadModulesPromise p s) = identities s"
  by (simp add: awaitLoadModulesPromise_def Let_def)

lemma identities_settle_loadNewModulesPromise [simp]:
  "identities (settle_loadNewModulesPromise k r s) = identities s"
  by (simp add: settle_loadNewModulesPromise_def)

lemma identities_getCombinedPromise_resumed [simp]:
  "identities (getCombinedPromise_resumed k s) = identities s"
  by (simp add: getCombinedPromise_resumed_def split: await_stage.splits option.splits sum.splits)

lemma identities_awaitLoadModulesPromise_returned [simp]:
  "identities (awaitLoadModulesPromise_returned k s) = identities s"
  by (simp add: awaitLoadModulesPromise_returned_def split: await_stage.splits option.splits)

lemma identities_addEntryModules_failed [simp]:
  "identities (addEntryModules_failed k err s) = identities s"
  by (simp add: addEntryModules_failed_def)

lemma identities_addEntryModules_continued [simp]:
  "identities (addEntryModules_continued k loaded s) = identities s"
  by (simp add: addEntryModules_continued_def)

lemma identities_addManualChunks_awaited [simp]:
  "identities (addManualChunks_awaited manualChunks s) = identities s"
  by (simp add: addManualChunks_awaited_def)

lemma identities_addManualChunks_settled [simp]:
  "identities (addManualChunks_settled k loaded s) = identities s"
proof (cases loaded)
  case (Inl err)
  then show ?thesis by (simp add: addManualChunks_settled_def)
next
  case (Inr loadedModules)
  obtain r s1 where a: "addManualChunks_loaded loadedModules s = (r, s1)"
    by (cases "addManualChunks_loaded loadedModules s")
  have "identities s1 = identities s"
    using identities_addManualChunks_loaded [of loadedModules s] a by simp
  then show ?thesis
    using Inr a by (cases r) (simp_all add: addManualChunks_settled_def)
qed

lemma registry_inv_same:
  "identities s' = identities s \<Longrightarrow> registry_inv s \<Longrightarrow> registry_inv s'"
  by (simp add: registry_inv_def)

lemma registry_inv_step: "registry_inv s \<Longrightarrow> registry_inv (step cfg ev s)"
proof (cases ev)
  case (EvFetchModule id' importer sideEffects isEntry)
  assume "registry_inv s"
  then show ?thesis using EvFetchModule by (simp add: registry_inv_fetchModule)
next
  case (EvFetchModuleLoaded m importer loaded)
  assume "registry_inv s"
  then show ?thesis using EvFetchModuleLoaded
    by (auto intro: registry_inv_same [OF identities_fetchModule_loaded])
next
  case (EvFetchModuleTransformed m transformed)
  assume "registry_inv s"
  then show ?thesis using EvFetchModuleTransformed
    by (auto intro: registry_inv_same [OF identities_fetchModule_transformed])
next
  case (EvFetchModuleLinked m dependencies)
  assume "registry_inv s"
  then show ?thesis using EvFetchModuleLinked
    by (auto intro: registry_inv_same [OF identities_fetchModule_linked])
next
  case (EvFetchResolvedDependency source importer resolvedId)
  assume "registry_inv s"
  then show ?thesis using EvFetchResolvedDependency
    by (simp add: registry_inv_fetchResolvedDependency)
next
  case (EvHandleMissingImports resolvedId source importer)
  assume "registry_inv s"
  then show ?thesis using EvHandleMissingImports
    by (auto intro: registry_inv_same [OF identities_handleMissingImports])
next
  case (EvLoadEntryModuleResolved unresolvedId isEntry resolved)
  assume "registry_inv s"
  then show ?thesis using EvLoadEntryModuleResolved
    by (simp add: registry_inv_loadEntryModule_resolved)
next
  case (EvAddEntryModules unresolvedEntryModules isUserDefined)
  assume "registry_inv s"
  then show ?thesis using EvAddEntryModules
    by (auto intro: registry_inv_same [OF identities_addEntryModules])
next
  case (EvEntryModuleNamed unresolved isUserDefined m)
  assume "registry_inv s"
  then show ?thesis using EvEntryModuleNamed
    by (auto intro: registry_inv_same [OF identities_addEntryModules_named])
next
  case (EvEntryModulesLoaded k loaded)
  assume "registry_inv s"
  then show ?thesis using EvEntryModulesLoaded
    by (auto intro: registry_inv_same [OF identities_addEntryModules_continued])
next
  case (EvEntryModulesFailed k err)
  assume "registry_inv s"
  then show ?thesis using EvEntryModulesFailed
    by (auto intro: registry_inv_same [OF identities_addEntryModules_failed])
next
  case (EvAddManualChunks manualChunks)
  assume "registry_inv s"
  then show ?thesis using EvAddManualChunks
    by (auto intro: registry_inv_same [OF identities_addManualChunks_awaited])
next
  case (EvManualChunksLoaded k loaded)
  assume "registry_inv s"
  then show ?thesis using EvManualChunksLoaded
    by (auto intro: registry_inv_same [OF identities_addManualChunks_settled])
next
  case (EvGetCombinedPromise k)
  assume "registry_inv s"
  then show ?thesis using EvGetCombinedPromise
    by (auto intro: registry_inv_same [OF identities_getCombinedPromise_resumed])
next
  case (EvLoadModulesReturned k)
  assume "registry_inv s"
  then show ?thesis using EvLoadModulesReturned
    by (auto intro: registry_inv_same [OF identities_awaitLoadModulesPromise_returned])
qed

lemma registry_inv_run: "registry_inv s \<Longrightarrow> registry_inv (run cfg events s)"
  unfolding run_def by (induction events arbitrary: s) (simp_all add: registry_inv_step)

lemma registry_inv_init: "registry_inv (ModuleLoader_init sideEffects u)"
  by (simp add: registry_inv_def identities_def registered_def ModuleLoader_init_def)

lemma registered_distinct:
  assumes "registered (registry, moduleIds, externalIds)"
  shows "distinct (moduleIds @ externalIds)"
proof -
  have mods: "registry (moduleIds ! m) = Some (ModuleRef m)" if "m < length moduleIds" for m
    using assms that by (simp add: registered_def)
  have exts: "registry (externalIds ! e) = Some (ExternalRef e)" if "e < length externalIds" for e
    using assms that by (simp add: registered_def)
  have "distinct moduleIds"
    unfolding distinct_conv_nth
  proof (intro allI impI)
    fix i j assume "i < length moduleIds" "j < length moduleIds" "i \<noteq> j"
    then show "moduleIds ! i \<noteq> moduleIds ! j"
      using mods [of i] mods [of j] by auto
  qed
  moreover have "distinct externalIds"
    unfolding distinct_conv_nth
  proof (intro allI impI)
    fix i j assume "i < length externalIds" "j < length externalIds" "i \<noteq> j"
    then show "externalIds ! i \<noteq> externalIds ! j"
      using exts [of i] exts [of j] by auto
  qed
  moreover have "set moduleIds \<inter> set externalIds = {}"
  proof (rule ccontr)
    assume "set moduleIds \<inter> set externalIds \<noteq> {}"
    then obtain x where "x \<in> set moduleIds" "x \<in> set externalIds" by auto
    then obtain i j where "i < length moduleIds" "moduleIds ! i = x"
      "j < length externalIds" "externalIds ! j = x"
      by (auto simp: in_set_conv_nth)
    then show False using mods [of i] exts [of j] by auto
  qed
  ultimately show ?thesis by simp
qed


lemma identities_fetchResolvedDependency:
  "identities (snd (fetchResolvedDependency cfg source importer resolvedId s)) =
     (case modulesById s (resolved_id resolvedId) of
        Some existing \<Rightarrow> identities s
      | None \<Rightarrow>
          if external resolvedId
          then ((modulesById s)(resolved_id resolvedId \<mapsto> ExternalRef (length (externalModules s))),
                map module_id (modules s),
                map external_id (externalModules s) @ [resolved_id resolvedId])
          else ((modulesById s)(resolved_id resolvedId \<mapsto> ModuleRef (length (modules s))),
                map module_id (modules s) @ [resolved_id resolvedId],
                map external_id (externalModules s)))"
proof (cases "external resolvedId")
  case True
  then show ?thesis
    by (cases "modulesById s (resolved_id resolvedId)")
       (simp_all add: fetchResolvedDependency_def identities_def new_ExternalModule_def
          split: entity_ref.splits)
next
  case False
  obtain r s1 where f: "fetchModule cfg (resolved_id resolvedId) (Some importer)
        (resolved_moduleSideEffects resolvedId) False s = (r, s1)"
    by (cases "fetchModule cfg (resolved_id resolvedId) (Some importer)
        (resolved_moduleSideEffects resolvedId) False s")
  have "snd (fetchResolvedDependency cfg source importer resolvedId s) = s1"
    using False f by (cases r) (simp_all add: fetchResolvedDependency_def)
  moreover have "s1 = snd (fetchModule cfg (resolved_id resolvedId) (Some importer)
        (resolved_moduleSideEffects resolvedId) False s)"
    using f by simp
  ultimately show ?thesis
    using False by (simp add: identities_fetchModule)
qed

lemma identities_lengths:
  assumes "identities s' = identities s"
  shows "modulesById s' = modulesById s \<and> length (modules s') = length (modules s) \<and>
         length (externalModules s') = length (externalModules s)"
proof -
  have "modulesById s' = modulesById s" "map module_id (modules s') = map module_id (modules s)"
    "map external_id (externalModules s') = map external_id (externalModules s)"
    using assms by (simp_all add: identities_def)
  then show ?thesis
    using map_eq_imp_length_eq [of module_id "modules s'" module_id "modules s"]
      map_eq_imp_length_eq [of external_id "externalModules s'" external_id "externalModules s"]
    by simp
qed

text \<open>
  C1. After any sequence of steps of a build, started on the loader the constructor
  leaves: no two created entities (modules or external modules) have the same id,
  and every created entity is the one registered under its id.  \<^verbatim>\<open>fetchModule\<close>
  on an id that is not registered registers the module it creates before it returns
  (hence before anything is awaited); \<^verbatim>\<open>fetchModule\<close> and
  \<^verbatim>\<open>fetchResolvedDependency\<close> on a registered id create nothing and leave the
  registry as it is.
\<close>

theorem C1_one_entity_per_id:
  assumes "s = run cfg events (ModuleLoader_init option u)"
  shows "distinct (map module_id (modules s) @ map external_id (externalModules s)) \<and>
    (\<forall>m < length (modules s). modulesById s (module_id (modules s ! m)) = Some (ModuleRef m)) \<and>
    (\<forall>e < length (externalModules s).
        modulesById s (external_id (externalModules s ! e)) = Some (ExternalRef e)) \<and>
    (\<forall>id' importer sideEffects isEntry.
        modulesById s id' = None \<longrightarrow>
          (let s' = snd (fetchModule cfg id' importer sideEffects isEntry s) in
           modulesById s' id' = Some (ModuleRef (length (modules s))) \<and>
           map module_id (modules s') = map module_id (modules s) @ [id'])) \<and>
    (\<forall>id' importer sideEffects isEntry source importer' resolvedId.
        modulesById s id' \<noteq> None \<and> resolved_id resolvedId = id' \<longrightarrow>
          (let s' = snd (fetchModule cfg id' importer sideEffects isEntry s);
               s'' = snd (fetchResolvedDependency cfg source importer' resolvedId s) in
           modulesById s' = modulesById s \<and>
           length (modules s') = length (modules s) \<and>
           length (externalModules s') = length (externalModules s) \<and>
           modulesById s'' = modulesById s \<and>
           length (modules s'') = length (modules s) \<and>
           length (externalModules s'') = length (externalModules s)))"
proof -
  have inv: "registry_inv s"
    using assms by (simp add: registry_inv_run registry_inv_init)
  then have reg: "registered (modulesById s, map module_id (modules s), map external_id (externalModules s))"
    by (simp add: registry_inv_def identities_def)
  have 1: "distinct (map module_id (modules s) @ map external_id (externalModules s))"
    using reg by (rule registered_distinct)
  have 2: "\<forall>m < length (modules s). modulesById s (module_id (modules s ! m)) = Some (ModuleRef m)"
    using reg by (simp add: registered_def)
  have 3: "\<forall>e < length (externalModules s).
        modulesById s (external_id (externalModules s ! e)) = Some (ExternalRef e)"
    using reg by (simp add: registered_def)
  have 4: "modulesById (snd (fetchModule cfg id' importer sideEffects isEntry s)) id' =
             Some (ModuleRef (length (modules s))) \<and>
           map module_id (modules (snd (fetchModule cfg id' importer sideEffects isEntry s))) =
             map module_id (modules s) @ [id']"
    if "modulesById s id' = None" for id' importer sideEffects isEntry
  proof -
    have "identities (snd (fetchModule cfg id' importer sideEffects isEntry s)) =
        ((modulesById s)(id' \<mapsto> ModuleRef (length (modules s))),
         map module_id (modules s) @ [id'], map external_id (externalModules s))"
      using that by (simp add: identities_fetchModule)
    then show ?thesis by (simp add: identities_def)
  qed
  have 5: "modulesById (snd (fetchModule cfg id' importer sideEffects isEntry s)) = modulesById s \<and>
           length (modules (snd (fetchModule cfg id' importer sideEffects isEntry s))) = length (modules s) \<and>
           length (externalModules (snd (fetchModule cfg id' importer sideEffects isEntry s))) =
             length (externalModules s)"
    if "modulesById s id' \<noteq> None" for id' importer sideEffects isEntry
  proof -
    have "identities (snd (fetchModule cfg id' importer sideEffects isEntry s)) = identities s"
      using that by (cases "modulesById s id'") (simp_all add: identities_fetchModule)
    then show ?thesis by (rule identities_lengths)
  qed
  have 6: "modulesById (snd (fetchResolvedDependency cfg source importer resolvedId s)) = modulesById s \<and>
           length (modules (snd (fetchResolvedDependency cfg source importer resolvedId s))) =
             length (modules s) \<and>
           length (externalModules (snd (fetchResolvedDependency cfg source importer resolvedId s))) =
             length (externalModules s)"
    if "modulesById s (resolved_id resolvedId) \<noteq> None" for source importer resolvedId
  proof -
    have "identities (snd (fetchResolvedDependency cfg source importer resolvedId s)) = identities s"
      using that by (cases "modulesById s (resolved_id resolvedId)")
        (simp_all add: identities_fetchResolvedDependency)
    then show ?thesis by (rule identities_lengths)
  qed
  show ?thesis
    unfolding Let_def
  proof (intro conjI allI impI)
    show "distinct (map module_id (modules s) @ map external_id (externalModules s))" by (rule 1)
  qed (use 2 3 4 5 6 in blast)+
qed


subsection \<open>The example loader\<close>

lemmas example_defs = example_loader_def example_config_def example_isRelative_def run_def
  ModuleLoader_init_def ModuleLoader_config_def fetchModule_def fetchResolvedDependency_def
  new_Module_def new_ExternalModule_def record_call_def update_module_def

lemma example_loader_value:
  "example_loader =
     \<lparr> modules = [new_Module ''a.js'' True False],
       externalModules = [new_ExternalModule ''lodash'' True],
       modulesById = [''a.js'' \<mapsto> ModuleRef 0, ''lodash'' \<mapsto> ExternalRef 0],
       manualChunkModules = Map.empty, indexedEntryModules = [], nextEntryModuleIndex = 0,
       entryCalls = [], loadModulesCalls = [], settledCalls = [], warnings = [],
       calls = [hookFirst_load ''a.js''], user = 0 \<rparr>"
  by (simp add: example_defs)

theorem C1_one_entity_per_id_witness:
  "map module_id (modules (run example_config example_build (ModuleLoader_init (MseBool True) 0))) =
     [''a.js''] \<and>
   map external_id (externalModules (run example_config example_build (ModuleLoader_init (MseBool True) 0))) =
     [''lodash''] \<and>
   modulesById (run example_config example_build (ModuleLoader_init (MseBool True) 0)) ''a.js'' =
     Some (ModuleRef 0) \<and>
   modulesById (run example_config example_build (ModuleLoader_init (MseBool True) 0)) ''lodash'' =
     Some (ExternalRef 0) \<and>
   distinct ([''a.js''] @ [''lodash''])"
  using C1_one_entity_per_id [OF refl, of example_config example_build "MseBool True" 0]
  by (simp add: example_defs example_build_def fetchModule_transformed_def setSource_def)

subsection \<open>Fetching a registered module\<close>

text \<open>
  C2. When the id is registered, \<^verbatim>\<open>fetchModule\<close> throws the internal-consistency
  error if the entity is an external module and leaves the loader as it is;
  otherwise it returns the promise already fulfilled with the registered module, and
  the only change of the loader is that \<^verbatim>\<open>isEntry\<close> is or-ed into the module's
  \<^verbatim>\<open>isEntryPoint\<close>.  In both cases no plugin hook and no transform is invoked, and
  the promise returned is not one that waits for a \<^verbatim>\<open>load\<close>.
\<close>

theorem C2_fetch_registered_module:
  "(modulesById s id' = Some (ExternalRef e) \<longrightarrow>
      fetchModule cfg id' importer sideEffects isEntry s = (Inl (Error_CannotFetchExternal id'), s)) \<and>
   (modulesById s id' = Some (ModuleRef m) \<longrightarrow>
      fetchModule cfg id' importer sideEffects isEntry s =
        (Inr (Fetched m),
         s\<lparr> modules := (modules s)
              [m := (modules s ! m)\<lparr> isEntryPoint := (isEntryPoint (modules s ! m) \<or> isEntry) \<rparr>] \<rparr>)) \<and>
   (modulesById s id' \<noteq> None \<longrightarrow>
      calls (snd (fetchModule cfg id' importer sideEffects isEntry s)) = calls s \<and>
      (\<forall>m. fst (fetchModule cfg id' importer sideEffects isEntry s) \<noteq> Inr (Loading m)))"
  by (auto simp: fetchModule_def update_module_def split: entity_ref.splits)

theorem C2_fetch_registered_module_witness:
  "modulesById example_loader ''a.js'' = Some (ModuleRef 0) \<and>
   modulesById example_loader ''lodash'' = Some (ExternalRef 0) \<and>
   fetchModule example_config ''lodash'' (Some ''a.js'') True False example_loader =
     (Inl (Error_CannotFetchExternal ''lodash''), example_loader) \<and>
   fst (fetchModule example_config ''a.js'' None True True example_loader) = Inr (Fetched 0) \<and>
   map isEntryPoint (modules example_loader) = [False] \<and>
   map isEntryPoint (modules (snd (fetchModule example_config ''a.js'' None True True example_loader))) =
     [True] \<and>
   calls example_loader = [hookFirst_load ''a.js''] \<and>
   calls (snd (fetchModule example_config ''a.js'' None True True example_loader)) =
     [hookFirst_load ''a.js'']"
  using C2_fetch_registered_module
      [of example_loader "''lodash''" 0 example_config "Some ''a.js''" True False 0]
    C2_fetch_registered_module [of example_loader "''a.js''" 0 example_config None True True 0]
  by (simp add: example_loader_value new_Module_def)

subsection \<open>Imports that do not resolve\<close>

text \<open>
  C3. When the resolution is \<^verbatim>\<open>null\<close>: for a relative source
  \<^verbatim>\<open>handleMissingImports\<close> throws the unresolved-import error and changes nothing;
  for any other source it records the warning, asks \<^verbatim>\<open>hasModuleSideEffects\<close> about
  the source as an external id, and returns the external resolution whose id is the
  source.
\<close>

theorem C3_missing_imports:
  "(isRelative cfg source \<longrightarrow>
      handleMissingImports cfg None source importer s = (Inl (errUnresolvedImport source importer), s)) \<and>
   (\<not> isRelative cfg source \<longrightarrow>
      handleMissingImports cfg None source importer s =
        (Inr \<lparr> resolved_id = source, external = True,
               resolved_moduleSideEffects = fst (hasModuleSideEffects cfg source True (user s)) \<rparr>,
         s\<lparr> warnings := warnings s @ [errUnresolvedImportTreatedAsExternal source importer],
            user := snd (hasModuleSideEffects cfg source True (user s)) \<rparr>))"
  by (simp add: handleMissingImports_def warn_def case_prod_unfold Let_def)

theorem C3_missing_imports_witness:
  "isRelative example_config ''./missing.js'' \<and>
   handleMissingImports example_config None ''./missing.js'' ''a.js'' example_loader =
     (Inl (errUnresolvedImport ''./missing.js'' ''a.js''), example_loader) \<and>
   \<not> isRelative example_config ''left-pad'' \<and>
   fst (handleMissingImports example_config None ''left-pad'' ''a.js'' example_loader) =
     Inr \<lparr> resolved_id = ''left-pad'', external = True, resolved_moduleSideEffects = True \<rparr> \<and>
   warnings (snd (handleMissingImports example_config None ''left-pad'' ''a.js'' example_loader)) =
     [errUnresolvedImportTreatedAsExternal ''left-pad'' ''a.js'']"
  using C3_missing_imports [of example_config "''./missing.js''" "''a.js''" example_loader]
    C3_missing_imports [of example_config "''left-pad''" "''a.js''" example_loader]
  by (simp add: example_loader_value example_config_def ModuleLoader_config_def example_isRelative_def)

subsection \<open>Failures of dependency fetches\<close>

lemma Promise_all_fulfilled:
  "list_all (\<lambda>p. \<not> isl p) ps \<Longrightarrow> Promise_all ps = {Inr (map projr ps)}"
  by (simp add: Promise_all_def)

lemma Promise_all_rejected:
  "\<not> list_all (\<lambda>p. \<not> isl p) ps \<Longrightarrow> Promise_all ps = {Inl e | e. Inl e \<in> set ps}"
proof -
  assume a: "\<not> list_all (\<lambda>p. \<not> isl p) ps"
  have "Inl ` projl ` set (filter isl ps) = {Inl e | e. Inl e \<in> set ps}"
  proof (intro set_eqI iffI)
    fix r assume "r \<in> Inl ` projl ` set (filter isl ps)"
    then obtain p where "p \<in> set ps" "isl p" "r = Inl (projl p)" by auto
    then show "r \<in> {Inl e | e. Inl e \<in> set ps}" by (cases p) auto
  next
    fix r assume "r \<in> {Inl e | e. Inl e \<in> set ps}"
    then obtain e where "r = Inl e" "Inl e \<in> set ps" by auto
    then show "r \<in> Inl ` projl ` set (filter isl ps)" by force
  qed
  then show ?thesis using a by (simp add: Promise_all_def)
qed

lemma Promise_all_nonempty: "Promise_all ps \<noteq> {}"
proof (cases "list_all (\<lambda>p. \<not> isl p) ps")
  case True
  then show ?thesis by (simp add: Promise_all_def)
next
  case False
  then obtain p where "p \<in> set ps" "isl p" by (auto simp: list_all_iff)
  then show ?thesis using False by (auto simp: Promise_all_def)
qed

text \<open>
  C4 (as the code has it). \<^verbatim>\<open>fetchAllDependencies\<close> always settles when its fetches
  do.  If a static dependency fetch failed, it rejects with the reason of such a
  fetch.  If all static fetches succeeded and a dynamic-import fetch failed, it
  rejects with the reason of such a fetch: the empty handler sits on the promise
  made by \<^verbatim>\<open>catch\<close>, not on the one that is returned.  Only if nothing failed is it
  fulfilled.  A rejection rejects the fetch of the importing module, which is left as
  it was.
\<close>

theorem C4_dependency_failures:
  "fetchAllDependencies dynamicImportFetches dependencyFetches \<noteq> {} \<and>
   (\<forall>r \<in> fetchAllDependencies dynamicImportFetches dependencyFetches.
      ((\<exists>p \<in> set dependencyFetches. isl p) \<longrightarrow>
          (\<exists>err. r = Inl err \<and> Inl err \<in> set dependencyFetches)) \<and>
      ((\<forall>p \<in> set dependencyFetches. \<not> isl p) \<and> (\<exists>p \<in> set dynamicImportFetches. isl p) \<longrightarrow>
          (\<exists>err. r = Inl err \<and> Inl err \<in> set dynamicImportFetches)) \<and>
      ((\<forall>p \<in> set dependencyFetches. \<not> isl p) \<and> (\<forall>p \<in> set dynamicImportFetches. \<not> isl p) \<longrightarrow>
          r = Inr (map projr dynamicImportFetches)) \<and>
      (\<forall>err. r = Inl err \<longrightarrow> fetchModule_linked m r s = (Inl err, s)))"
proof -
  let ?dyn = "Promise_all dynamicImportFetches"
  let ?dep = "Promise_all dependencyFetches"
  have unfold: "fetchAllDependencies dynamicImportFetches dependencyFetches =
      (\<Union>awaited \<in> ?dep. case awaited of Inl err \<Rightarrow> {Inl err} | Inr deps \<Rightarrow> ?dyn)"
    by (simp add: fetchAllDependencies_def Let_def)
  show ?thesis
  proof (cases "list_all (\<lambda>p. \<not> isl p) dependencyFetches")
    case True
    then have all: "fetchAllDependencies dynamicImportFetches dependencyFetches = ?dyn"
      by (simp add: unfold Promise_all_fulfilled)
    have nodep: "\<forall>p \<in> set dependencyFetches. \<not> isl p"
      using True by (simp add: list_all_iff)
    show ?thesis
    proof (cases "list_all (\<lambda>p. \<not> isl p) dynamicImportFetches")
      case True
      then show ?thesis
        using nodep by (auto simp: all Promise_all_fulfilled list_all_iff)
    next
      case False
      then show ?thesis
        using nodep Promise_all_nonempty [of dynamicImportFetches]
        by (auto simp: all Promise_all_rejected list_all_iff fetchModule_linked_def)
    qed
  next
    case False
    then have all: "fetchAllDependencies dynamicImportFetches dependencyFetches =
        {Inl e | e. Inl e \<in> set dependencyFetches}"
      by (auto simp: unfold Promise_all_rejected)
    obtain p where p: "p \<in> set dependencyFetches" "isl p"
      using False by (auto simp: list_all_iff)
    obtain e where "p = Inl e" using p(2) by (cases p) simp_all
    then have "Inl e \<in> set dependencyFetches" using p by simp
    then show ?thesis
      using p by (auto simp: all fetchModule_linked_def)
  qed
qed


theorem C4_dependency_failures_witness:
  "fetchAllDependencies [Inr (), Inl (errUnresolvedImport ''./missing.js'' ''a.js'')]
     [Inr (ExternalRef 0)] = {Inl (errUnresolvedImport ''./missing.js'' ''a.js'')} \<and>
   fetchAllDependencies [Inr ()] [Inl (Thrown ''boom'')] = {Inl (Thrown ''boom'')} \<and>
   fetchAllDependencies [Inr (), Inr ()] [Inr (ExternalRef 0)] = {Inr [(), ()]} \<and>
   fetchModule_linked 0 (Inl (Thrown ''boom'')) example_loader = (Inl (Thrown ''boom''), example_loader)"
  using C4_dependency_failures
      [of "[Inr (), Inl (errUnresolvedImport ''./missing.js'' ''a.js'')]" "[Inr (ExternalRef 0)]"
          0 example_loader]
    C4_dependency_failures [of "[Inr ()]" "[Inl (Thrown ''boom'')]" 0 example_loader]
    C4_dependency_failures [of "[Inr (), Inr ()]" "[Inr (ExternalRef 0)]" 0 example_loader]
  by (simp add: fetchAllDependencies_def Promise_all_def Promise_catch_def fetchModule_linked_def)

text \<open>The claim as stated fails: one failed dynamic import and no static dependency,
  and the fetch of the module is rejected.\<close>

theorem C4_dynamic_failure_counterexample:
  "fetchAllDependencies [Inl (errUnresolvedImport ''./missing.js'' ''a.js'')] [] =
     {Inl (errUnresolvedImport ''./missing.js'' ''a.js'')} \<and>
   fetchModule_linked 0 (Inl (errUnresolvedImport ''./missing.js'' ''a.js'')) example_loader =
     (Inl (errUnresolvedImport ''./missing.js'' ''a.js''), example_loader)"
  by (simp add: fetchAllDependencies_def Promise_all_def Promise_catch_def fetchModule_linked_def)

subsection \<open>Manual chunk assignment\<close>




subsection \<open>Resolving an entry\<close>

lemma addModuleToManualChunk_fields:
  assumes "\<And>M a. g (M\<lparr> manualChunkAlias := a \<rparr>) = g M"
  shows "map g (modules (snd (addModuleToManualChunk al m s))) = map g (modules s)"
  by (simp add: addModuleToManualChunk_def Let_def update_module_def map_update_same assms
      split: option.splits)

lemma fetchModule_new_fields:
  assumes "modulesById s id' = None"
  shows "map (\<lambda>M. (module_id M, moduleSideEffects M, isEntryPoint M))
           (modules (snd (fetchModule cfg id' importer sideEffects isEntry s))) =
         map (\<lambda>M. (module_id M, moduleSideEffects M, isEntryPoint M)) (modules s) @
           [(id', sideEffects, isEntry)]"
proof -
  let ?g = "\<lambda>M. (module_id M, moduleSideEffects M, isEntryPoint M)"
  have chunk: "map ?g (modules s') = map ?g (modules t)"
    if "addModuleToManualChunk al m t = (r, s')" for al m r s' and t :: "'a loader"
    using addModuleToManualChunk_fields [of ?g al m t] that by simp
  show ?thesis
    using assms
    by (auto simp: fetchModule_def Let_def record_call_def new_Module_def dest!: chunk
        split: prod.splits option.splits sum.splits)
qed

text \<open>
  C7. \<^verbatim>\<open>loadEntryModule\<close> invokes the \<^verbatim>\<open>resolveId\<close> hook with the specifier and no
  importer.  When the hook resolves to \<^verbatim>\<open>false\<close> or to an object whose
  \<^verbatim>\<open>external\<close> is set, the entry-cannot-be-external error is thrown; when it resolves
  to \<^verbatim>\<open>null\<close>, \<^verbatim>\<open>undefined\<close> or an object without a string id, the unresolved-entry
  error is thrown; otherwise the id is fetched with \<^verbatim>\<open>fetchModule\<close>, without
  importer and with \<^verbatim>\<open>moduleSideEffects\<close> true, whatever the resolution says about
  side effects: a module created by that fetch has \<^verbatim>\<open>moduleSideEffects\<close> true.
\<close>

theorem C7_entry_resolution:
  "loadEntryModule unresolvedId s = s\<lparr> calls := calls s @ [hookFirst_resolveId unresolvedId None] \<rparr> \<and>
   loadEntryModule_resolved cfg unresolvedId isEntry (Inr ResolveFalse) s =
     (Inl (errEntryCannotBeExternal unresolvedId), s) \<and>
   loadEntryModule_resolved cfg unresolvedId isEntry (Inr (ResolveObject objectId True sideEffects)) s =
     (Inl (errEntryCannotBeExternal unresolvedId), s) \<and>
   loadEntryModule_resolved cfg unresolvedId isEntry (Inr ResolveNull) s =
     (Inl (errUnresolvedEntry unresolvedId), s) \<and>
   loadEntryModule_resolved cfg unresolvedId isEntry (Inr ResolveUndefined) s =
     (Inl (errUnresolvedEntry unresolvedId), s) \<and>
   loadEntryModule_resolved cfg unresolvedId isEntry (Inr (ResolveObject None False sideEffects)) s =
     (Inl (errUnresolvedEntry unresolvedId), s) \<and>
   loadEntryModule_resolved cfg unresolvedId isEntry (Inr (ResolveString id')) s =
     fetchModule cfg id' None True isEntry s \<and>
   loadEntryModule_resolved cfg unresolvedId isEntry (Inr (ResolveObject (Some id') False sideEffects)) s =
     fetchModule cfg id' None True isEntry s \<and>
   (modulesById s id' = None \<longrightarrow>
      map (\<lambda>M. (module_id M, moduleSideEffects M, isEntryPoint M))
        (modules (snd (loadEntryModule_resolved cfg unresolvedId isEntry
                         (Inr (ResolveObject (Some id') False sideEffects)) s))) =
      map (\<lambda>M. (module_id M, moduleSideEffects M, isEntryPoint M)) (modules s) @
        [(id', True, isEntry)])"
  by (simp add: loadEntryModule_def loadEntryModule_resolved_def record_call_def
      fetchModule_new_fields)

theorem C7_entry_resolution_witness:
  "modulesById example_loader ''main.js'' = None \<and>
   loadEntryModule_resolved example_config ''main'' True (Inr ResolveFalse) example_loader =
     (Inl (errEntryCannotBeExternal ''main''), example_loader) \<and>
   map (\<lambda>M. (module_id M, moduleSideEffects M, isEntryPoint M))
     (modules (snd (loadEntryModule_resolved example_config ''main'' True
                      (Inr (ResolveObject (Some ''main.js'') False (Some False))) example_loader))) =
     [(''a.js'', True, False), (''main.js'', True, True)]"
  using C7_entry_resolution
      [of "''main''" example_loader example_config True None "Some False" "''main.js''"]
  by (simp add: example_loader_value new_Module_def example_config_def ModuleLoader_config_def
      fetchModule_def record_call_def)

subsection \<open>The order of the entry modules\<close>

lemma set_sort_insert: "set (sort_insert compare x xs) = insert x (set xs)"
  by (induction xs) auto

lemma sorted_sort_insert:
  "sorted (map index xs) \<Longrightarrow> sorted (map index (sort_insert compareIndex x xs))"
  by (induction xs) (auto simp: set_sort_insert compareIndex_def)

lemma distinct_map_sort_insert:
  "distinct (map f (sort_insert compare x xs)) = distinct (map f (x # xs))"
  by (induction xs) (auto simp: set_sort_insert)

lemma set_sort_fold:
  "set (foldl (\<lambda>sorted x. sort_insert compare x sorted) acc xs) = set acc \<union> set xs"
  by (induction xs arbitrary: acc) (auto simp: set_sort_insert)

lemma sorted_sort_fold:
  "sorted (map index acc) \<Longrightarrow>
     sorted (map index (foldl (\<lambda>sorted x. sort_insert compareIndex x sorted) acc xs))"
  by (induction xs arbitrary: acc) (simp_all add: sorted_sort_insert)

lemma distinct_map_sort_fold:
  "distinct (map f (foldl (\<lambda>sorted x. sort_insert compare x sorted) acc xs)) =
     distinct (map f (acc @ xs))"
proof (induction xs arbitrary: acc)
  case Nil
  then show ?case by simp
next
  case (Cons x xs)
  have "distinct (map f (sort_insert compare x acc @ xs)) = distinct (map f (acc @ x # xs))"
    using distinct_map_sort_insert [of f compare x acc]
    by (auto simp: set_sort_insert)
  then show ?case using Cons.IH [of "sort_insert compare x acc"] by simp
qed

lemma set_Array_sort [simp]: "set (Array_sort compare xs) = set xs"
  by (simp add: Array_sort_def set_sort_fold)

lemma sorted_Array_sort: "sorted (map index (Array_sort compareIndex xs))"
  by (simp add: Array_sort_def sorted_sort_fold)

lemma distinct_map_Array_sort [simp]:
  "distinct (map f (Array_sort compare xs)) = distinct (map f xs)"
  by (simp add: Array_sort_def distinct_map_sort_fold)

lemma min_index_None_iff: "min_index handed x = None \<longleftrightarrow> x \<notin> fst ` set handed"
  by (induction handed x rule: min_index.induct) auto

lemma min_index_Some_iff:
  "min_index handed x = Some i \<longleftrightarrow>
     (x, i) \<in> set handed \<and> (\<forall>j. (x, j) \<in> set handed \<longrightarrow> i \<le> j)"
proof (induction handed x arbitrary: i rule: min_index.induct)
  case (1 x)
  then show ?case by simp
next
  case (2 y j handed x)
  show ?case
  proof (cases "y = x")
    case False
    then show ?thesis using 2 by auto
  next
    case True
    show ?thesis
    proof (cases "min_index handed x")
      case None
      then have "\<And>k. (x, k) \<notin> set handed"
        by (metis min_index_None_iff fst_conv image_eqI)
      then show ?thesis using True None by auto
    next
      case (Some k)
      then have k: "(x, k) \<in> set handed" "\<And>l. (x, l) \<in> set handed \<Longrightarrow> k \<le> l"
        using 2 True by auto
      have mi: "min_index ((y, j) # handed) x = Some (min j k)"
        using True Some by simp
      show ?thesis
      proof
        assume "min_index ((y, j) # handed) x = Some i"
        then have i: "i = min j k" using mi by simp
        have "(x, i) \<in> set ((y, j) # handed)"
          using i k(1) True by (auto simp: min_def)
        moreover have "\<forall>l. (x, l) \<in> set ((y, j) # handed) \<longrightarrow> i \<le> l"
          using i k(2) by (auto simp: min_def intro: order_trans)
        ultimately show "(x, i) \<in> set ((y, j) # handed) \<and>
            (\<forall>l. (x, l) \<in> set ((y, j) # handed) \<longrightarrow> i \<le> l)"
          by blast
      next
        assume a: "(x, i) \<in> set ((y, j) # handed) \<and>
            (\<forall>l. (x, l) \<in> set ((y, j) # handed) \<longrightarrow> i \<le> l)"
        then have "i \<le> j" "i \<le> k" using True k(1) by auto
        moreover have "i = j \<or> k \<le> i" using a k(2) by auto
        ultimately have "i = min j k" by (auto simp: min_def)
        then show "min_index ((y, j) # handed) x = Some i" using mi by simp
      qed
    qed
  qed
qed

lemma min_index_append1:
  "min_index (handed @ [(x, i)]) =
     (min_index handed)(x \<mapsto> (case min_index handed x of None \<Rightarrow> i | Some j \<Rightarrow> min j i))"
proof
  fix y
  show "min_index (handed @ [(x, i)]) y =
     ((min_index handed)(x \<mapsto> (case min_index handed x of None \<Rightarrow> i | Some j \<Rightarrow> min j i))) y"
    by (induction handed y rule: min_index.induct) (auto split: option.splits simp: min_def)
qed

lemma min_index_set_cong:
  assumes "set handed = set handed'"
  shows "min_index handed = min_index handed'"
proof
  fix x
  show "min_index handed x = min_index handed' x"
  proof (cases "min_index handed x")
    case None
    then show ?thesis using assms min_index_None_iff by (metis)
  next
    case (Some i)
    then show ?thesis using assms min_index_Some_iff by (metis)
  qed
qed

lemma update_first_keys:
  assumes "\<And>e. k (f e) = k e"
  shows "map k (update_first P f entries) = map k entries"
  by (induction entries) (simp_all add: assms)

lemma update_first_others:
  "set (map g (update_first P f entries)) \<subseteq> set (map g entries) \<union> g ` f ` set entries"
  by (induction entries) auto

lemma map_of_update_first:
  assumes "\<And>e. k (f e) = k e" and "\<And>e. P e \<longleftrightarrow> k e = x" and "find P entries = Some e0"
  shows "map_of (map (\<lambda>e. (k e, v e)) (update_first P f entries)) =
           (map_of (map (\<lambda>e. (k e, v e)) entries))(x \<mapsto> v (f e0)) \<and>
         map_of (map (\<lambda>e. (k e, v e)) entries) x = Some (v e0)"
  using assms(3)
proof (induction entries)
  case Nil
  then show ?case by simp
next
  case (Cons e entries)
  show ?case
  proof (cases "P e")
    case True
    then have "e0 = e" using Cons.prems by simp
    then show ?thesis using True assms(1,2) by (auto simp: fun_eq_iff)
  next
    case False
    then have "find P entries = Some e0" using Cons.prems by simp
    from Cons.IH [OF this] show ?thesis
      using False assms(2) by (auto simp: fun_eq_iff)
  qed
qed

lemma module_id_update_module:
  assumes "\<And>M. module_id (f M) = module_id M"
  shows "module_id (modules (update_module m f s) ! a) = module_id (modules s ! a)"
proof (cases "m < length (modules s)")
  case True
  then show ?thesis by (simp add: update_module_def nth_list_update assms)
next
  case False
  then show ?thesis by (simp add: update_module_def not_less list_update_beyond)
qed

lemma indexEntryModule_ids:
  "module_id (modules (indexEntryModule m i isUserDefined s) ! a) = module_id (modules s ! a) \<and>
   length (modules (indexEntryModule m i isUserDefined s)) = length (modules s) \<and>
   nextEntryModuleIndex (indexEntryModule m i isUserDefined s) = nextEntryModuleIndex s \<and>
   entryCalls (indexEntryModule m i isUserDefined s) = entryCalls s"
  by (simp add: indexEntryModule_def Let_def module_id_update_module split: option.splits)
     (simp add: update_module_def)

lemma indexEntryModule_entries:
  "indexedEntryModules (indexEntryModule m i isUserDefined s) =
     (let sameId = (\<lambda>e. module_id (modules s ! module e) = module_id (modules s ! m)) in
      case find sameId (indexedEntryModules s) of
        None \<Rightarrow> indexedEntryModules s @ [\<lparr> index = i, module = m \<rparr>]
      | Some existing \<Rightarrow>
          update_first sameId (\<lambda>e. e\<lparr> index := min (index e) i \<rparr>) (indexedEntryModules s))"
proof -
  let ?s1 = "update_module m
      (\<lambda>M. M\<lparr> isUserDefinedEntryPoint := (isUserDefinedEntryPoint M \<or> isUserDefined) \<rparr>) s"
  have same: "(\<lambda>e. module_id (modules ?s1 ! module e) = module_id (modules ?s1 ! m)) =
              (\<lambda>e. module_id (modules s ! module e) = module_id (modules s ! m))"
    by (simp add: module_id_update_module)
  have entries: "indexedEntryModules ?s1 = indexedEntryModules s"
    by (simp add: update_module_def)
  show ?thesis
    unfolding indexEntryModule_def Let_def same entries
    by (simp split: option.splits)
qed


lemma indexEntryModule_table:
  "map_of (entry_table (indexEntryModule m i isUserDefined s)) =
     (map_of (entry_table s))
       (module_id (modules s ! m) \<mapsto>
          (case map_of (entry_table s) (module_id (modules s ! m)) of
             None \<Rightarrow> i | Some j \<Rightarrow> min j i))"
proof -
  let ?k = "\<lambda>e. module_id (modules s ! module e)"
  let ?x = "module_id (modules s ! m)"
  let ?P = "\<lambda>e. ?k e = ?x"
  let ?L = "indexedEntryModules s"
  have tab': "entry_table (indexEntryModule m i isUserDefined s) =
      map (\<lambda>e. (?k e, index e)) (indexedEntryModules (indexEntryModule m i isUserDefined s))"
    by (simp add: entry_table_def indexEntryModule_ids)
  have tab: "entry_table s = map (\<lambda>e. (?k e, index e)) ?L"
    by (simp add: entry_table_def)
  show ?thesis
  proof (cases "find ?P ?L")
    case None
    then have "?x \<notin> fst ` set (entry_table s)"
      by (auto simp: find_None_iff tab)
    then have "map_of (entry_table s) ?x = None"
      by (simp add: map_of_eq_None_iff)
    moreover have "indexedEntryModules (indexEntryModule m i isUserDefined s) =
        ?L @ [\<lparr> index = i, module = m \<rparr>]"
      using None by (simp add: indexEntryModule_entries)
    ultimately show ?thesis
      unfolding tab' by (simp add: tab [symmetric] map_add_def fun_eq_iff split: option.splits)
  next
    case (Some e0)
    let ?f = "\<lambda>e. e\<lparr> index := min (index e) i \<rparr>"
    have "indexedEntryModules (indexEntryModule m i isUserDefined s) = update_first ?P ?f ?L"
      using Some by (simp add: indexEntryModule_entries)
    moreover have "map_of (map (\<lambda>e. (?k e, index e)) (update_first ?P ?f ?L)) =
           (map_of (map (\<lambda>e. (?k e, index e)) ?L))(?x \<mapsto> index (?f e0)) \<and>
         map_of (map (\<lambda>e. (?k e, index e)) ?L) ?x = Some (index e0)"
      by (rule map_of_update_first [where P = ?P and k = ?k and f = ?f and v = index, OF _ _ Some])
         simp_all
    ultimately show ?thesis
      unfolding tab' by (simp add: tab [symmetric])
  qed
qed

lemma indexEntryModule_keys:
  assumes "distinct (map fst (entry_table s))"
  shows "distinct (map fst (entry_table (indexEntryModule m i isUserDefined s)))"
proof -
  let ?k = "\<lambda>e. module_id (modules s ! module e)"
  let ?x = "module_id (modules s ! m)"
  let ?P = "\<lambda>e. ?k e = ?x"
  let ?L = "indexedEntryModules s"
  have keys': "map fst (entry_table (indexEntryModule m i isUserDefined s)) =
      map ?k (indexedEntryModules (indexEntryModule m i isUserDefined s))"
    by (simp add: entry_table_def indexEntryModule_ids comp_def)
  have keys: "map fst (entry_table s) = map ?k ?L"
    by (simp add: entry_table_def comp_def)
  show ?thesis
  proof (cases "find ?P ?L")
    case None
    then have "?x \<notin> set (map ?k ?L)"
      by (auto simp: find_None_iff)
    moreover have "indexedEntryModules (indexEntryModule m i isUserDefined s) =
        ?L @ [\<lparr> index = i, module = m \<rparr>]"
      using None by (simp add: indexEntryModule_entries)
    ultimately show ?thesis
      using assms unfolding keys' keys by simp
  next
    case (Some e0)
    then have "indexedEntryModules (indexEntryModule m i isUserDefined s) =
        update_first ?P (\<lambda>e. e\<lparr> index := min (index e) i \<rparr>) ?L"
      by (simp add: indexEntryModule_entries)
    then show ?thesis
      using assms unfolding keys' keys by (simp add: update_first_keys)
  qed
qed

lemma indexEntryModule_refs:
  "module ` set (indexedEntryModules (indexEntryModule m i isUserDefined s)) \<subseteq>
     insert m (module ` set (indexedEntryModules s))"
proof -
  have "map module (update_first P (\<lambda>e. e\<lparr> index := min (index e) i \<rparr>) entries) = map module entries"
    for P and entries :: "IndexedEntryModule list"
    by (rule update_first_keys) simp
  then have "module ` set (update_first P (\<lambda>e. e\<lparr> index := min (index e) i \<rparr>) entries) =
      module ` set entries" for P and entries :: "IndexedEntryModule list"
    by (metis set_map)
  then show ?thesis
    by (auto simp: indexEntryModule_entries Let_def split: option.splits)
qed


lemma indexEntryModules_ids:
  "module_id (modules (indexEntryModules loaded i isUserDefined s) ! a) = module_id (modules s ! a) \<and>
   length (modules (indexEntryModules loaded i isUserDefined s)) = length (modules s) \<and>
   nextEntryModuleIndex (indexEntryModules loaded i isUserDefined s) = nextEntryModuleIndex s \<and>
   entryCalls (indexEntryModules loaded i isUserDefined s) = entryCalls s"
  by (induction loaded arbitrary: i s) (simp_all add: indexEntryModule_ids)

lemma indexEntryModules_refs:
  "module ` set (indexedEntryModules (indexEntryModules loaded i isUserDefined s)) \<subseteq>
     set loaded \<union> module ` set (indexedEntryModules s)"
proof (induction loaded arbitrary: i s)
  case Nil
  then show ?case by simp
next
  case (Cons m rest)
  show ?case
    using Cons.IH [of "Suc i" "indexEntryModule m i isUserDefined s"]
      indexEntryModule_refs [of m i isUserDefined s]
    by auto
qed

lemma indexEntryModules_table:
  assumes "distinct (map fst (entry_table s))" and "map_of (entry_table s) = min_index handed"
  shows "distinct (map fst (entry_table (indexEntryModules loaded i isUserDefined s))) \<and>
         map_of (entry_table (indexEntryModules loaded i isUserDefined s)) =
           min_index (handed @ zip (map (\<lambda>m. module_id (modules s ! m)) loaded)
                                [i ..< i + length loaded])"
  using assms
proof (induction loaded arbitrary: i s handed)
  case Nil
  then show ?case by simp
next
  case (Cons m rest)
  let ?s1 = "indexEntryModule m i isUserDefined s"
  let ?x = "module_id (modules s ! m)"
  have d1: "distinct (map fst (entry_table ?s1))"
    using Cons.prems(1) by (rule indexEntryModule_keys)
  have m1: "map_of (entry_table ?s1) = min_index (handed @ [(?x, i)])"
    by (simp add: indexEntryModule_table Cons.prems(2) min_index_append1)
  have ids: "map (\<lambda>m. module_id (modules ?s1 ! m)) rest = map (\<lambda>m. module_id (modules s ! m)) rest"
    by (simp add: indexEntryModule_ids)
  have upt: "[i ..< i + length (m # rest)] = i # [Suc i ..< Suc i + length rest]"
    by (simp add: upt_rec)
  from Cons.IH [OF d1 m1, of "Suc i"] show ?case
    unfolding ids upt by simp
qed

lemma entry_table_sorted:
  "set (entry_table (s\<lparr> indexedEntryModules := Array_sort compare (indexedEntryModules s) \<rparr>)) =
     set (entry_table s) \<and>
   distinct (map fst (entry_table (s\<lparr> indexedEntryModules := Array_sort compare (indexedEntryModules s) \<rparr>))) =
     distinct (map fst (entry_table s))"
proof -
  have "map fst (map (\<lambda>e. (module_id (modules s ! module e), index e)) entries) =
        map (\<lambda>e. module_id (modules s ! module e)) entries" for entries
    by (simp add: comp_def)
  then show ?thesis
    by (simp add: entry_table_def)
qed

lemma addEntryModules_loaded_table:
  assumes "distinct (map fst (entry_table s))" and "map_of (entry_table s) = min_index handed"
  shows "distinct (map fst (entry_table (addEntryModules_loaded firstIndex isUserDefined loaded s))) \<and>
         map_of (entry_table (addEntryModules_loaded firstIndex isUserDefined loaded s)) =
           min_index (handed @ zip (map (\<lambda>m. module_id (modules s ! m)) loaded)
                                [firstIndex ..< firstIndex + length loaded]) \<and>
         sorted (map index (indexedEntryModules (addEntryModules_loaded firstIndex isUserDefined loaded s)))"
proof -
  let ?s1 = "indexEntryModules loaded firstIndex isUserDefined s"
  let ?s2 = "?s1\<lparr> indexedEntryModules := Array_sort compareIndex (indexedEntryModules ?s1) \<rparr>"
  have s2: "addEntryModules_loaded firstIndex isUserDefined loaded s = ?s2"
    by (simp add: addEntryModules_loaded_def Let_def)
  have 1: "distinct (map fst (entry_table ?s1))"
    and 2: "map_of (entry_table ?s1) =
           min_index (handed @ zip (map (\<lambda>m. module_id (modules s ! m)) loaded)
                                [firstIndex ..< firstIndex + length loaded])"
    using indexEntryModules_table [OF assms] by auto
  have d2: "distinct (map fst (entry_table ?s2))"
    using 1 entry_table_sorted [where s = ?s1 and compare = compareIndex] by simp
  have "set (entry_table ?s2) = set (entry_table ?s1)"
    using entry_table_sorted [where s = ?s1 and compare = compareIndex] by simp
  then have "map_of (entry_table ?s2) = map_of (entry_table ?s1)"
    using map_of_inject_set [OF d2 1] by simp
  moreover have "sorted (map index (indexedEntryModules ?s2))"
    by (simp add: sorted_Array_sort)
  ultimately show ?thesis
    unfolding s2 using d2 2 by simp
qed

lemma addEntryModules_loaded_ids:
  "module_id (modules (addEntryModules_loaded firstIndex isUserDefined loaded s) ! a) =
     module_id (modules s ! a) \<and>
   length (modules (addEntryModules_loaded firstIndex isUserDefined loaded s)) = length (modules s) \<and>
   nextEntryModuleIndex (addEntryModules_loaded firstIndex isUserDefined loaded s) =
     nextEntryModuleIndex s \<and>
   entryCalls (addEntryModules_loaded firstIndex isUserDefined loaded s) = entryCalls s \<and>
   module ` set (indexedEntryModules (addEntryModules_loaded firstIndex isUserDefined loaded s)) \<subseteq>
     set loaded \<union> module ` set (indexedEntryModules s)"
  using indexEntryModules_refs [of loaded firstIndex isUserDefined s]
  by (simp add: addEntryModules_loaded_def Let_def indexEntryModules_ids)

lemma entry_view_simps [simp]:
  "entry_view (s\<lparr> user := u \<rparr>) = entry_view s"
  "entry_view (s\<lparr> calls := c \<rparr>) = entry_view s"
  "entry_view (s\<lparr> warnings := w \<rparr>) = entry_view s"
  "entry_view (s\<lparr> manualChunkModules := mc \<rparr>) = entry_view s"
  "entry_view (s\<lparr> modules := ms \<rparr>) = entry_view s"
  "entry_view (s\<lparr> externalModules := es \<rparr>) = entry_view s"
  "entry_view (s\<lparr> modulesById := r \<rparr>) = entry_view s"
  "entry_view (s\<lparr> loadModulesCalls := lc \<rparr>) = entry_view s"
  "entry_view (s\<lparr> settledCalls := sc \<rparr>) = entry_view s"
  "entry_view (update_module m f s) = entry_view s"
  "entry_view (warn w' s) = entry_view s"
  "entry_view (record_call c' s) = entry_view s"
  by (simp_all add: entry_view_def update_module_def warn_def record_call_def)

lemma entry_view_addModuleToManualChunk [simp]:
  "entry_view (snd (addModuleToManualChunk al m s)) = entry_view s"
  by (simp add: addModuleToManualChunk_def Let_def split: option.splits)

lemma addModuleToManualChunk_entry_view:
  "addModuleToManualChunk al m s = (r, s') \<Longrightarrow> entry_view s' = entry_view s"
  using entry_view_addModuleToManualChunk [of al m s] by simp

lemma entry_view_fetchModule [simp]:
  "entry_view (snd (fetchModule cfg id' importer sideEffects isEntry s)) = entry_view s"
  by (auto simp: fetchModule_def Let_def dest!: addModuleToManualChunk_entry_view
      split: prod.splits option.splits sum.splits entity_ref.splits)

lemma entry_view_fetchModule_loaded [simp]:
  "entry_view (snd (fetchModule_loaded cfg m importer loaded s)) = entry_view s"
  by (simp add: fetchModule_loaded_def Let_def split: sum.splits option.splits prod.splits)

lemma entry_view_fetchModule_transformed [simp]:
  "entry_view (snd (fetchModule_transformed m transformed s)) = entry_view s"
  by (simp add: fetchModule_transformed_def Let_def split: sum.splits)

lemma entry_view_mergeExportsAll [simp]:
  "entry_view (mergeExportsAll m x names s) = entry_view s"
  by (induction m x names s rule: mergeExportsAll.induct) simp_all

lemma entry_view_linkExportAllSources [simp]:
  "entry_view (snd (linkExportAllSources m srcs s)) = entry_view s"
  by (induction m srcs s rule: linkExportAllSources.induct)
     (simp_all split: option.splits entity_ref.splits)

lemma entry_view_fetchModule_linked [simp]:
  "entry_view (snd (fetchModule_linked m dependencies s)) = entry_view s"
proof (cases dependencies)
  case (Inl err)
  then show ?thesis by (simp add: fetchModule_linked_def)
next
  case (Inr fetched)
  define s1 where "s1 = update_module m
      (\<lambda>M. M\<lparr> exportsAll := addOwnExports (module_id M) (exports M) (exportsAll M) \<rparr>) s"
  obtain r s2 where l: "linkExportAllSources m (exportAllSources (modules s1 ! m)) s1 = (r, s2)"
    by (cases "linkExportAllSources m (exportAllSources (modules s1 ! m)) s1")
  have "entry_view s1 = entry_view s"
    by (simp add: s1_def)
  moreover have "entry_view s2 = entry_view s1"
    using entry_view_linkExportAllSources [of m "exportAllSources (modules s1 ! m)" s1] l by simp
  ultimately show ?thesis
    using Inr l by (cases r) (simp_all add: fetchModule_linked_def Let_def s1_def [symmetric])
qed

lemma entry_view_fetchResolvedDependency [simp]:
  "entry_view (snd (fetchResolvedDependency cfg source importer resolvedId s)) = entry_view s"
proof (cases "external resolvedId")
  case True
  then show ?thesis
    by (simp add: fetchResolvedDependency_def entry_view_def split: option.splits entity_ref.splits)
next
  case False
  obtain r s1 where f: "fetchModule cfg (resolved_id resolvedId) (Some importer)
        (resolved_moduleSideEffects resolvedId) False s = (r, s1)"
    by (cases "fetchModule cfg (resolved_id resolvedId) (Some importer)
        (resolved_moduleSideEffects resolvedId) False s")
  have "entry_view s1 = entry_view s"
    using entry_view_fetchModule [of cfg "resolved_id resolvedId" "Some importer"
        "resolved_moduleSideEffects resolvedId" False s] f by simp
  then show ?thesis
    using False f by (cases r) (simp_all add: fetchResolvedDependency_def)
qed

lemma entry_view_handleMissingImports [simp]:
  "entry_view (snd (handleMissingImports cfg resolvedId source importer s)) = entry_view s"
  by (simp add: handleMissingImports_def Let_def split: option.splits prod.splits)

lemma entry_view_loadEntryModule_resolved [simp]:
  "entry_view (snd (loadEntryModule_resolved cfg unresolvedId isEntry resolved s)) = entry_view s"
  by (simp add: loadEntryModule_resolved_def split: sum.splits resolveIdResult.splits option.splits)

lemma entry_view_addEntryModules_named [simp]:
  "entry_view (addEntryModules_named unresolved isUserDefined m s) = entry_view s"
  by (simp add: addEntryModules_named_def Let_def split: option.splits)

lemma entry_view_loadEntryModule [simp]: "entry_view (loadEntryModule unresolvedId s) = entry_view s"
  by (simp add: loadEntryModule_def)

lemma entry_view_addManualChunks [simp]:
  "entry_view (addManualChunks manualChunks s) = entry_view s"
proof -
  have "entry_view (fold (\<lambda>(al, id'). loadEntryModule id') xs s) = entry_view s" for xs
    by (induction xs arbitrary: s) (simp_all add: case_prod_unfold)
  then show ?thesis by (simp add: addManualChunks_def)
qed

lemma entry_view_addManualChunks_loaded [simp]:
  "entry_view (snd (addManualChunks_loaded loaded s)) = entry_view s"
proof (induction loaded arbitrary: s)
  case Nil
  then show ?case by simp
next
  case (Cons p rest)
  obtain al m where p: "p = (al, m)" by (cases p)
  obtain r s1 where a: "addModuleToManualChunk al m s = (r, s1)"
    by (cases "addModuleToManualChunk al m s")
  have "entry_view s1 = entry_view s"
    using a by (rule addModuleToManualChunk_entry_view)
  then show ?case
    using Cons.IH [of s1] p a by (cases r) simp_all
qed

lemma entry_view_awaitLoadModulesPromise [simp]:
  "entry_view (awaitLoadModulesPromise p s) = entry_view s"
  by (simp add: awaitLoadModulesPromise_def Let_def)

lemma entry_view_settle_loadNewModulesPromise [simp]:
  "entry_view (settle_loadNewModulesPromise k r s) = entry_view s"
  by (simp add: settle_loadNewModulesPromise_def)

lemma entry_view_getCombinedPromise_resumed [simp]:
  "entry_view (getCombinedPromise_resumed k s) = entry_view s"
  by (simp add: getCombinedPromise_resumed_def split: await_stage.splits option.splits sum.splits)

lemma entry_view_awaitLoadModulesPromise_returned [simp]:
  "entry_view (awaitLoadModulesPromise_returned k s) = entry_view s"
  by (simp add: awaitLoadModulesPromise_returned_def split: await_stage.splits option.splits)

lemma entry_view_addManualChunks_awaited [simp]:
  "entry_view (addManualChunks_awaited manualChunks s) = entry_view s"
  by (simp add: addManualChunks_awaited_def)

lemma entry_view_addManualChunks_settled [simp]:
  "entry_view (addManualChunks_settled k loaded s) = entry_view s"
proof (cases loaded)
  case (Inl err)
  then show ?thesis by (simp add: addManualChunks_settled_def)
next
  case (Inr loadedModules)
  obtain r s1 where a: "addManualChunks_loaded loadedModules s = (r, s1)"
    by (cases "addManualChunks_loaded loadedModules s")
  have "entry_view s1 = entry_view s"
    using entry_view_addManualChunks_loaded [of loadedModules s] a by simp
  then show ?thesis
    using Inr a by (cases r) (simp_all add: addManualChunks_settled_def)
qed

lemma ids_extend_step:
  assumes "registry_inv s"
  shows "\<exists>added. map module_id (modules (step cfg ev s)) = map module_id (modules s) @ added"
proof -
  have same: "\<exists>added. map module_id (modules s') = map module_id (modules s) @ added"
    if "identities s' = identities s" for s' :: "'a loader"
    using that by (simp add: identities_def)
  have fetch: "\<exists>added. map module_id (modules (snd (fetchModule cfg id' importer sideEffects isEntry s))) =
      map module_id (modules s) @ added" for id' importer sideEffects isEntry
    using identities_fetchModule [of cfg id' importer sideEffects isEntry s]
    by (cases "modulesById s id'") (simp_all add: identities_def)
  show ?thesis
  proof (cases ev)
    case (EvFetchModule id' importer sideEffects isEntry)
    then show ?thesis using fetch by simp
  next
    case (EvFetchModuleLoaded m importer loaded)
    then show ?thesis by (auto intro: same)
  next
    case (EvFetchModuleTransformed m transformed)
    then show ?thesis
      using identities_fetchModule_transformed [OF assms] by (auto intro: same)
  next
    case (EvFetchModuleLinked m dependencies)
    then show ?thesis by (auto intro: same)
  next
    case (EvFetchResolvedDependency source importer resolvedId)
    then show ?thesis
      using identities_fetchResolvedDependency [of cfg source importer resolvedId s]
      by (cases "modulesById s (resolved_id resolvedId)"; cases "external resolvedId")
         (simp_all add: identities_def)
  next
    case (EvHandleMissingImports resolvedId source importer)
    then show ?thesis by (auto intro: same)
  next
    case (EvLoadEntryModuleResolved unresolvedId isEntry resolved)
    then show ?thesis
      using fetch
      by (simp add: loadEntryModule_resolved_def split: sum.splits resolveIdResult.splits option.splits)
  next
    case (EvAddEntryModules unresolvedEntryModules isUserDefined)
    then show ?thesis by (auto intro: same)
  next
    case (EvEntryModuleNamed unresolved isUserDefined m)
    then show ?thesis by (auto intro: same)
  next
    case (EvEntryModulesLoaded k loaded)
    then show ?thesis by (auto intro: same)
  next
    case (EvEntryModulesFailed k err)
    then show ?thesis by (auto intro: same)
  next
    case (EvAddManualChunks manualChunks)
    then show ?thesis by (auto intro: same)
  next
    case (EvManualChunksLoaded k loaded)
    then show ?thesis by (auto intro: same)
  next
    case (EvGetCombinedPromise k)
    then show ?thesis by (auto intro: same)
  next
    case (EvLoadModulesReturned k)
    then show ?thesis by (auto intro: same)
  qed
qed

lemma entry_table_extend:
  assumes "indexedEntryModules s' = indexedEntryModules s"
    and "map module_id (modules s') = map module_id (modules s) @ added"
    and "\<forall>e \<in> set (indexedEntryModules s). module e < length (modules s)"
  shows "entry_table s' = entry_table s"
proof -
  have "module_id (modules s' ! a) = module_id (modules s ! a)" if "a < length (modules s)" for a
  proof -
    have "a < length (modules s')"
      using that assms(2) by (metis length_append length_map trans_less_add1)
    then have "module_id (modules s' ! a) = map module_id (modules s') ! a" by simp
    also have "\<dots> = map module_id (modules s) ! a"
      using that by (simp add: assms(2) nth_append)
    finally show ?thesis using that by simp
  qed
  then show ?thesis
    using assms(1,3) by (simp add: entry_table_def)
qed

lemma entries_inv_frame:
  assumes "entries_inv s handed" and "entry_view s' = entry_view s"
    and "map module_id (modules s') = map module_id (modules s) @ added"
  shows "entries_inv s' handed"
proof -
  have v: "indexedEntryModules s' = indexedEntryModules s"
    "nextEntryModuleIndex s' = nextEntryModuleIndex s" "entryCalls s' = entryCalls s"
    using assms(2) by (simp_all add: entry_view_def)
  have valid: "\<forall>e \<in> set (indexedEntryModules s). module e < length (modules s)"
    using assms(1) by (simp add: entries_inv_def)
  have t: "entry_table s' = entry_table s"
    using v(1) assms(3) valid by (rule entry_table_extend)
  have "length (modules s) \<le> length (modules s')"
    using assms(3) by (metis le_add1 length_append length_map)
  then have "\<forall>e \<in> set (indexedEntryModules s). module e < length (modules s')"
    using valid by auto
  then show ?thesis
    using assms(1) unfolding entries_inv_def t v by simp
qed

lemma entry_view_fold_loadEntryModule [simp]:
  "entry_view (fold (\<lambda>x. loadEntryModule (f x)) xs s) = entry_view s"
  by (induction xs arbitrary: s) simp_all

lemma addEntryModules_fields:
  "indexedEntryModules (addEntryModules unresolved isUserDefined s) = indexedEntryModules s \<and>
   nextEntryModuleIndex (addEntryModules unresolved isUserDefined s) =
     nextEntryModuleIndex s + length unresolved \<and>
   entryCalls (addEntryModules unresolved isUserDefined s) =
     entryCalls s @ [\<lparr> firstEntryModuleIndex = nextEntryModuleIndex s,
                       unresolvedCount = length unresolved,
                       call_isUserDefined = isUserDefined \<rparr>]"
proof -
  let ?s1 = "s\<lparr> nextEntryModuleIndex := nextEntryModuleIndex s + length unresolved \<rparr>"
  have "entry_view (fold (\<lambda>u. loadEntryModule (unresolved_id u)) unresolved ?s1) = entry_view ?s1"
    by simp
  then show ?thesis
    by (simp add: addEntryModules_def Let_def entry_view_def)
qed

lemma entries_inv_addEntryModules:
  assumes "entries_inv s handed"
  shows "entries_inv (addEntryModules unresolved isUserDefined s) handed"
proof -
  let ?s' = "addEntryModules unresolved isUserDefined s"
  have f: "indexedEntryModules ?s' = indexedEntryModules s"
    "nextEntryModuleIndex ?s' = nextEntryModuleIndex s + length unresolved"
    "entryCalls ?s' = entryCalls s @ [\<lparr> firstEntryModuleIndex = nextEntryModuleIndex s,
                       unresolvedCount = length unresolved,
                       call_isUserDefined = isUserDefined \<rparr>]"
    using addEntryModules_fields [of unresolved isUserDefined s] by simp_all
  have ids: "map module_id (modules ?s') = map module_id (modules s) @ []"
    using identities_addEntryModules [of unresolved isUserDefined s] by (simp add: identities_def)
  have valid: "\<forall>e \<in> set (indexedEntryModules s). module e < length (modules s)"
    using assms by (simp add: entries_inv_def)
  have t: "entry_table ?s' = entry_table s"
    using f(1) ids valid by (rule entry_table_extend)
  have len: "length (modules ?s') = length (modules s)"
    using ids by (metis append_Nil2 length_map)
  show ?thesis
    using assms unfolding entries_inv_def t f len
    by (auto simp: sorted_wrt_append)
qed

lemma remove_nth_sorted_wrt:
  assumes "sorted_wrt P cs" and "k < length cs"
  shows "sorted_wrt P (take k cs @ drop (Suc k) cs) \<and>
         (\<forall>d \<in> set (take k cs). P d (cs ! k)) \<and>
         (\<forall>d \<in> set (drop (Suc k) cs). P (cs ! k) d)"
proof -
  have "sorted_wrt P (take k cs @ cs ! k # drop (Suc k) cs)"
    using assms by (simp add: id_take_nth_drop [symmetric])
  then show ?thesis
    by (auto simp: sorted_wrt_append)
qed

lemma entries_inv_addEntryModules_loaded:
  assumes inv: "entries_inv s handed"
    and k: "k < length (entryCalls s)"
    and len: "length loaded = unresolvedCount (entryCalls s ! k)"
    and valid: "list_all (valid_module s) loaded"
  shows "entries_inv
           (addEntryModules_loaded (firstEntryModuleIndex (entryCalls s ! k))
              (call_isUserDefined (entryCalls s ! k)) loaded
              (s\<lparr> entryCalls := take k (entryCalls s) @ drop (Suc k) (entryCalls s) \<rparr>))
           (handed @ zip (map (\<lambda>m. module_id (modules s ! m)) loaded)
                       [firstEntryModuleIndex (entryCalls s ! k) ..<
                        firstEntryModuleIndex (entryCalls s ! k) + length loaded])"
proof -
  let ?c = "entryCalls s ! k"
  let ?a = "firstEntryModuleIndex ?c"
  let ?n = "length loaded"
  let ?cs = "take k (entryCalls s) @ drop (Suc k) (entryCalls s)"
  let ?s0 = "s\<lparr> entryCalls := ?cs \<rparr>"
  let ?s' = "addEntryModules_loaded ?a (call_isUserDefined ?c) loaded ?s0"
  let ?Z = "zip (map (\<lambda>m. module_id (modules s ! m)) loaded) [?a ..< ?a + ?n]"
  let ?P = "\<lambda>c d. firstEntryModuleIndex c + unresolvedCount c \<le> firstEntryModuleIndex d"
  have t0: "entry_table ?s0 = entry_table s" by (simp add: entry_table_def)
  have I: "distinct (map fst (entry_table s))" "map_of (entry_table s) = min_index handed"
    "\<forall>e \<in> set (indexedEntryModules s). module e < length (modules s)"
    "distinct (map snd handed)"
    "\<forall>(x, j) \<in> set handed. j < nextEntryModuleIndex s \<and>
        (\<forall>c \<in> set (entryCalls s).
           j < firstEntryModuleIndex c \<or> firstEntryModuleIndex c + unresolvedCount c \<le> j)"
    "sorted_wrt ?P (entryCalls s)"
    "\<forall>c \<in> set (entryCalls s). firstEntryModuleIndex c + unresolvedCount c \<le> nextEntryModuleIndex s"
    using inv by (simp_all add: entries_inv_def)
  have c_in: "?c \<in> set (entryCalls s)" using k by simp
  have sub: "set ?cs \<subseteq> set (entryCalls s)"
    by (auto dest: in_set_takeD in_set_dropD)
  have rem: "sorted_wrt ?P ?cs" "\<forall>d \<in> set (take k (entryCalls s)). ?P d ?c"
    "\<forall>d \<in> set (drop (Suc k) (entryCalls s)). ?P ?c d"
    using remove_nth_sorted_wrt [OF I(6) k] by auto
  have tab: "distinct (map fst (entry_table ?s'))"
    "map_of (entry_table ?s') = min_index (handed @ ?Z)"
    "sorted (map index (indexedEntryModules ?s'))"
    using addEntryModules_loaded_table
      [of ?s0 handed ?a "call_isUserDefined ?c" loaded] I(1,2) t0
    by simp_all
  have fields: "length (modules ?s') = length (modules s)"
    "nextEntryModuleIndex ?s' = nextEntryModuleIndex s" "entryCalls ?s' = ?cs"
    "module ` set (indexedEntryModules ?s') \<subseteq> set loaded \<union> module ` set (indexedEntryModules s)"
    using addEntryModules_loaded_ids [of ?a "call_isUserDefined ?c" loaded ?s0] by simp_all
  have refs: "\<forall>e \<in> set (indexedEntryModules ?s'). module e < length (modules ?s')"
  proof
    fix e assume "e \<in> set (indexedEntryModules ?s')"
    then have "module e \<in> set loaded \<union> module ` set (indexedEntryModules s)"
      using fields(4) by blast
    then show "module e < length (modules ?s')"
      using I(3) valid unfolding fields(1) by (auto simp: list_all_iff valid_module_def)
  qed
  have sndZ: "map snd ?Z = [?a ..< ?a + ?n]"
    by (simp add: map_snd_zip)
  have inZ: "?a \<le> j \<and> j < ?a + ?n" if "(x, j) \<in> set ?Z" for x j
    using set_zip_rightD [OF that] by simp
  have range: "?a + ?n \<le> nextEntryModuleIndex s"
    using I(7) c_in len by auto
  have dist: "distinct (map snd (handed @ ?Z))"
  proof -
    have "j \<notin> set [?a ..< ?a + ?n]" if jh: "j \<in> snd ` set handed" for j
    proof -
      obtain x where "(x, j) \<in> set handed" using jh by auto
      then have "j < ?a \<or> ?a + unresolvedCount ?c \<le> j"
        using I(5) c_in by blast
      then show ?thesis using len by auto
    qed
    then have "set (map snd handed) \<inter> set [?a ..< ?a + ?n] = {}"
      by (simp add: disjoint_iff)
    then show ?thesis
      using I(4) by (simp add: sndZ)
  qed
  have free: "\<forall>(x, j) \<in> set (handed @ ?Z). j < nextEntryModuleIndex ?s' \<and>
        (\<forall>c \<in> set (entryCalls ?s').
           j < firstEntryModuleIndex c \<or> firstEntryModuleIndex c + unresolvedCount c \<le> j)"
  proof -
    have old: "j < nextEntryModuleIndex s \<and>
        (\<forall>c \<in> set ?cs. j < firstEntryModuleIndex c \<or> firstEntryModuleIndex c + unresolvedCount c \<le> j)"
      if "(x, j) \<in> set handed" for x j
      using I(5) that sub by blast
    have new: "j < nextEntryModuleIndex s \<and>
        (\<forall>c \<in> set ?cs. j < firstEntryModuleIndex c \<or> firstEntryModuleIndex c + unresolvedCount c \<le> j)"
      if "(x, j) \<in> set ?Z" for x j
    proof -
      have j: "?a \<le> j" "j < ?a + ?n" using inZ [OF that] by auto
      have "j < firstEntryModuleIndex d \<or> firstEntryModuleIndex d + unresolvedCount d \<le> j"
        if d: "d \<in> set ?cs" for d
      proof -
        consider "d \<in> set (take k (entryCalls s))" | "d \<in> set (drop (Suc k) (entryCalls s))"
          using d by auto
        then show ?thesis
        proof cases
          case 1
          then have "firstEntryModuleIndex d + unresolvedCount d \<le> ?a" using rem(2) by blast
          then show ?thesis using j(1) by simp
        next
          case 2
          then have "?a + unresolvedCount ?c \<le> firstEntryModuleIndex d" using rem(3) by blast
          then show ?thesis using j(2) len by simp
        qed
      qed
      then show ?thesis using j(2) range by auto
    qed
    show ?thesis
      unfolding fields
    proof (intro ballI)
      fix p assume p: "p \<in> set (handed @ ?Z)"
      obtain x j where xj: "p = (x, j)" by (cases p)
      have "(x, j) \<in> set handed \<or> (x, j) \<in> set ?Z" using p xj by simp
      then have "j < nextEntryModuleIndex s \<and>
        (\<forall>c \<in> set ?cs. j < firstEntryModuleIndex c \<or> firstEntryModuleIndex c + unresolvedCount c \<le> j)"
        using old new by blast
      then show "case p of (x, j) \<Rightarrow> j < nextEntryModuleIndex s \<and>
        (\<forall>c \<in> set ?cs. j < firstEntryModuleIndex c \<or> firstEntryModuleIndex c + unresolvedCount c \<le> j)"
        unfolding xj by simp
    qed
  qed
  have bound: "\<forall>c \<in> set (entryCalls ?s').
      firstEntryModuleIndex c + unresolvedCount c \<le> nextEntryModuleIndex ?s'"
    unfolding fields using I(7) sub by blast
  show ?thesis
    unfolding entries_inv_def
    using tab refs dist free rem(1) bound fields(3) by simp
qed

lemma entries_inv_awaitLoadModulesPromise:
  assumes "entries_inv s handed"
  shows "entries_inv (awaitLoadModulesPromise p s) handed"
  using assms
proof (rule entries_inv_frame)
  show "entry_view (awaitLoadModulesPromise p s) = entry_view s" by simp
  show "map module_id (modules (awaitLoadModulesPromise p s)) = map module_id (modules s) @ []"
    by (simp add: awaitLoadModulesPromise_def Let_def)
qed

lemma entries_inv_addEntryModules_failed:
  assumes inv: "entries_inv s handed" and k: "k < length (entryCalls s)"
  shows "entries_inv (addEntryModules_failed k err s) handed"
proof -
  let ?cs = "take k (entryCalls s) @ drop (Suc k) (entryCalls s)"
  let ?s' = "addEntryModules_failed k err s"
  let ?P = "\<lambda>c d. firstEntryModuleIndex c + unresolvedCount c \<le> firstEntryModuleIndex d"
  have fields: "entry_table ?s' = entry_table s" "indexedEntryModules ?s' = indexedEntryModules s"
    "modules ?s' = modules s" "nextEntryModuleIndex ?s' = nextEntryModuleIndex s"
    "entryCalls ?s' = ?cs"
    by (simp_all add: addEntryModules_failed_def entry_table_def)
  have sub: "set ?cs \<subseteq> set (entryCalls s)"
    by (auto dest: in_set_takeD in_set_dropD)
  have "sorted_wrt ?P (entryCalls s)"
    using inv by (simp add: entries_inv_def)
  then have sorted: "sorted_wrt ?P ?cs"
    using remove_nth_sorted_wrt [OF _ k] by auto
  have free: "\<forall>(x, j) \<in> set handed. j < nextEntryModuleIndex s \<and>
        (\<forall>c \<in> set ?cs.
           j < firstEntryModuleIndex c \<or> firstEntryModuleIndex c + unresolvedCount c \<le> j)"
  proof (intro ballI)
    fix p assume p: "p \<in> set handed"
    obtain x j where xj: "p = (x, j)" by (cases p)
    have "j < nextEntryModuleIndex s \<and>
        (\<forall>c \<in> set (entryCalls s).
           j < firstEntryModuleIndex c \<or> firstEntryModuleIndex c + unresolvedCount c \<le> j)"
      using inv p xj unfolding entries_inv_def by blast
    then show "case p of (x, j) \<Rightarrow> j < nextEntryModuleIndex s \<and>
        (\<forall>c \<in> set ?cs.
           j < firstEntryModuleIndex c \<or> firstEntryModuleIndex c + unresolvedCount c \<le> j)"
      unfolding xj using sub by auto
  qed
  have bound: "\<forall>c \<in> set ?cs. firstEntryModuleIndex c + unresolvedCount c \<le> nextEntryModuleIndex s"
    using inv sub unfolding entries_inv_def by blast
  have rest: "distinct (map fst (entry_table s))" "map_of (entry_table s) = min_index handed"
    "sorted (map index (indexedEntryModules s))"
    "\<forall>e \<in> set (indexedEntryModules s). module e < length (modules s)"
    "distinct (map snd handed)"
    using inv by (simp_all add: entries_inv_def)
  show ?thesis
    unfolding entries_inv_def fields
    using rest sorted free bound by simp
qed

lemma entries_inv_step:
  assumes "entries_inv s handed" and "registry_inv s"
  shows "entries_inv (step cfg ev s) (handed @ assigned ev s)"
proof -
  have frame: "entries_inv (step cfg ev s) handed" if "entry_view (step cfg ev s) = entry_view s"
  proof -
    obtain added where "map module_id (modules (step cfg ev s)) = map module_id (modules s) @ added"
      using ids_extend_step [OF assms(2)] by blast
    with assms(1) that show ?thesis by (rule entries_inv_frame)
  qed
  show ?thesis
  proof (cases ev)
    case (EvFetchModule id' importer sideEffects isEntry)
    then show ?thesis using frame by simp
  next
    case (EvFetchModuleLoaded m importer loaded)
    then show ?thesis using frame by simp
  next
    case (EvFetchModuleTransformed m transformed)
    then show ?thesis using frame by simp
  next
    case (EvFetchModuleLinked m dependencies)
    then show ?thesis using frame by simp
  next
    case (EvFetchResolvedDependency source importer resolvedId)
    then show ?thesis using frame by simp
  next
    case (EvHandleMissingImports resolvedId source importer)
    then show ?thesis using frame by simp
  next
    case (EvLoadEntryModuleResolved unresolvedId isEntry resolved)
    then show ?thesis using frame by simp
  next
    case (EvAddEntryModules unresolvedEntryModules isUserDefined)
    then show ?thesis using assms(1) by (simp add: entries_inv_addEntryModules)
  next
    case (EvEntryModuleNamed unresolved isUserDefined m)
    then show ?thesis using frame by simp
  next
    case (EvEntryModulesLoaded k loaded)
    show ?thesis
    proof (cases "k < length (entryCalls s) \<and> length loaded = unresolvedCount (entryCalls s ! k) \<and>
         list_all (valid_module s) loaded")
      case True
      then show ?thesis
        using entries_inv_awaitLoadModulesPromise
          [OF entries_inv_addEntryModules_loaded [OF assms(1), of k loaded]] EvEntryModulesLoaded
        by (simp add: addEntryModules_continued_def)
    next
      case False
      then show ?thesis using assms(1) EvEntryModulesLoaded by auto
    qed
  next
    case (EvEntryModulesFailed k err)
    then show ?thesis
      using entries_inv_addEntryModules_failed [OF assms(1), of k err] assms(1) by simp
  next
    case (EvAddManualChunks manualChunks)
    then show ?thesis using frame by simp
  next
    case (EvManualChunksLoaded k loaded)
    then show ?thesis using frame by simp
  next
    case (EvGetCombinedPromise k)
    then show ?thesis using frame by simp
  next
    case (EvLoadModulesReturned k)
    then show ?thesis using frame by simp
  qed
qed

lemma entries_inv_run:
  assumes "entries_inv s handed" and "registry_inv s"
  shows "entries_inv (run cfg events s) (handed @ assignments cfg events s)"
  using assms
proof (induction events arbitrary: s handed)
  case Nil
  then show ?case by (simp add: run_def)
next
  case (Cons ev events)
  have "entries_inv (step cfg ev s) (handed @ assigned ev s)"
    using Cons.prems by (rule entries_inv_step)
  moreover have "registry_inv (step cfg ev s)"
    using Cons.prems(2) by (rule registry_inv_step)
  ultimately have "entries_inv (run cfg events (step cfg ev s))
      ((handed @ assigned ev s) @ assignments cfg events (step cfg ev s))"
    by (rule Cons.IH)
  then show ?case by (simp add: run_def)
qed

lemma entries_inv_init: "entries_inv (ModuleLoader_init option u) []"
  by (simp add: entries_inv_def entry_table_def ModuleLoader_init_def fun_eq_iff)

lemma entries_inv_min:
  assumes "entries_inv s handed" and "e \<in> set (indexedEntryModules s)"
  shows "(module_id (modules s ! module e), index e) \<in> set handed \<and>
         (\<forall>j. (module_id (modules s ! module e), j) \<in> set handed \<longrightarrow> index e \<le> j)"
proof -
  have "(module_id (modules s ! module e), index e) \<in> set (entry_table s)"
    using assms(2) by (auto simp: entry_table_def)
  moreover have "distinct (map fst (entry_table s))"
    using assms(1) by (simp add: entries_inv_def)
  ultimately have "map_of (entry_table s) (module_id (modules s ! module e)) = Some (index e)"
    by simp
  then have "min_index handed (module_id (modules s ! module e)) = Some (index e)"
    using assms(1) by (simp add: entries_inv_def)
  then show ?thesis by (simp add: min_index_Some_iff)
qed

lemma entries_inv_present:
  assumes "entries_inv s handed" and "(x, j) \<in> set handed"
  shows "\<exists>e \<in> set (indexedEntryModules s). module_id (modules s ! module e) = x"
proof -
  have "x \<in> fst ` set handed"
    using assms(2) by force
  then have "min_index handed x \<noteq> None"
    by (simp add: min_index_None_iff)
  then have "map_of (entry_table s) x \<noteq> None"
    using assms(1) by (simp add: entries_inv_def)
  then have "x \<in> fst ` set (entry_table s)"
    by (simp add: map_of_eq_None_iff)
  then show ?thesis by (auto simp: entry_table_def)
qed

lemma entries_inv_distinct_index:
  assumes "entries_inv s handed"
  shows "distinct (map snd (entry_table s))"
proof -
  have d: "distinct (map fst (entry_table s))" and h: "distinct (map snd handed)"
    and m: "map_of (entry_table s) = min_index handed"
    using assms by (simp_all add: entries_inv_def)
  have "distinct (entry_table s)"
    using d by (rule distinct_map [THEN iffD1, THEN conjunct1])
  moreover have "inj_on snd (set (entry_table s))"
  proof (rule inj_onI)
    fix p q assume p: "p \<in> set (entry_table s)" and q: "q \<in> set (entry_table s)"
      and eq: "snd p = snd q"
    have "map_of (entry_table s) (fst p) = Some (snd p)" "map_of (entry_table s) (fst q) = Some (snd q)"
      using p q d by simp_all
    then have "(fst p, snd p) \<in> set handed" "(fst q, snd q) \<in> set handed"
      by (simp_all add: m min_index_Some_iff)
    moreover have "inj_on snd (set handed)"
      using h by (rule distinct_map [THEN iffD1, THEN conjunct2])
    ultimately have "(fst p, snd p) = (fst q, snd q)"
      using eq by (intro inj_onD [of snd "set handed"]) simp_all
    then show "p = q" by (simp add: prod_eq_iff)
  qed
  ultimately show ?thesis by (simp add: distinct_map)
qed

lemma entries_inv_unique:
  assumes "entries_inv s handed" and "entries_inv s' handed'" and "set handed' = set handed"
  shows "entry_table s' = entry_table s"
proof -
  have snd_index: "map snd (entry_table s) = map index (indexedEntryModules s)"
    "map snd (entry_table s') = map index (indexedEntryModules s')"
    by (simp_all add: entry_table_def comp_def)
  have "map_of (entry_table s') = map_of (entry_table s)"
    using assms min_index_set_cong [of handed' handed] by (simp add: entries_inv_def)
  moreover have "distinct (map fst (entry_table s'))" "distinct (map fst (entry_table s))"
    using assms by (simp_all add: entries_inv_def)
  ultimately have sets: "set (entry_table s') = set (entry_table s)"
    using map_of_inject_set by blast
  have "sorted (map snd (entry_table s'))" "sorted (map snd (entry_table s))"
    using assms(1,2) by (simp_all add: snd_index entries_inv_def)
  moreover have ds: "distinct (map snd (entry_table s'))" "distinct (map snd (entry_table s))"
    using assms(1,2) by (simp_all add: entries_inv_distinct_index)
  moreover have "inj_on snd (set (entry_table s') \<union> set (entry_table s))"
    using ds(2) sets by (simp add: distinct_map)
  ultimately show ?thesis
    using sets by (intro map_sorted_distinct_set_unique [of snd])
qed

text \<open>
  The entry list at every moment of a build.  \<^verbatim>\<open>addEntryModules\<close> takes the indices
  of a call from the one counter: the call gets the range that starts at the counter,
  and the counter moves past it.  After any sequence of steps, with the indices
  handed to modules by the continuations that have run so far (in whatever order
  they ran): no index was handed to two specifiers; every element of the entry list
  carries an index that was handed to its module and that is the least of all
  indices handed to that module; every module that was handed an index is in the
  list, once; the list is sorted by index, strictly; \<^verbatim>\<open>entryModules\<close> is the list
  of its modules in that order.  The list of ids and indices depends only on which
  indices were handed to which modules: any other build that handed out the same
  ones, in any order, ends with the same list.  The indices that a call has taken
  and not yet handed over, because it still waits for its modules (line 152), have
  no part in the list.
\<close>

theorem entry_list_of_continued_calls:
  fixes s :: "'u loader"
  assumes "s = run cfg events (ModuleLoader_init option u)"
    and "handed = assignments cfg events (ModuleLoader_init option u)"
  shows
   "(\<forall>unresolved isUserDefined (t :: 'u loader).
       nextEntryModuleIndex (addEntryModules unresolved isUserDefined t) =
         nextEntryModuleIndex t + length unresolved \<and>
       entryCalls (addEntryModules unresolved isUserDefined t) =
         entryCalls t @ [\<lparr> firstEntryModuleIndex = nextEntryModuleIndex t,
                           unresolvedCount = length unresolved,
                           call_isUserDefined = isUserDefined \<rparr>]) \<and>
    distinct (map snd handed) \<and>
    (\<forall>e \<in> set (indexedEntryModules s).
       (module_id (modules s ! module e), index e) \<in> set handed \<and>
       (\<forall>j. (module_id (modules s ! module e), j) \<in> set handed \<longrightarrow> index e \<le> j)) \<and>
    (\<forall>(x, j) \<in> set handed.
       \<exists>e \<in> set (indexedEntryModules s). module_id (modules s ! module e) = x) \<and>
    distinct (map (\<lambda>e. module_id (modules s ! module e)) (indexedEntryModules s)) \<and>
    sorted_wrt (<) (map index (indexedEntryModules s)) \<and>
    entryModules s = map module (indexedEntryModules s) \<and>
    (\<forall>(cfg' :: 'u config) events' option' u'.
       set (assignments cfg' events' (ModuleLoader_init option' u')) = set handed \<longrightarrow>
         entry_table (run cfg' events' (ModuleLoader_init option' u')) = entry_table s)"
proof -
  have run_inv: "entries_inv (run c evs (ModuleLoader_init opt v))
      (assignments c evs (ModuleLoader_init opt v))" for c evs opt and v :: 'u
    using entries_inv_run [OF entries_inv_init registry_inv_init, where cfg = c and events = evs]
    by simp
  have inv: "entries_inv s handed"
    using assms run_inv by simp
  have counter: "nextEntryModuleIndex (addEntryModules unresolved isUserDefined t) =
         nextEntryModuleIndex t + length unresolved \<and>
       entryCalls (addEntryModules unresolved isUserDefined t) =
         entryCalls t @ [\<lparr> firstEntryModuleIndex = nextEntryModuleIndex t,
                           unresolvedCount = length unresolved,
                           call_isUserDefined = isUserDefined \<rparr>]"
    for unresolved isUserDefined and t :: "'u loader"
    using addEntryModules_fields [of unresolved isUserDefined t] by simp
  have once: "distinct (map snd handed)"
    using inv by (simp add: entries_inv_def)
  have least: "\<forall>e \<in> set (indexedEntryModules s).
       (module_id (modules s ! module e), index e) \<in> set handed \<and>
       (\<forall>j. (module_id (modules s ! module e), j) \<in> set handed \<longrightarrow> index e \<le> j)"
    using entries_inv_min [OF inv] by blast
  have present: "\<forall>(x, j) \<in> set handed.
       \<exists>e \<in> set (indexedEntryModules s). module_id (modules s ! module e) = x"
    using entries_inv_present [OF inv] by blast
  have ids: "distinct (map (\<lambda>e. module_id (modules s ! module e)) (indexedEntryModules s))"
    using inv by (simp add: entries_inv_def entry_table_def comp_def)
  have "distinct (map index (indexedEntryModules s))"
    using entries_inv_distinct_index [OF inv] by (simp add: entry_table_def comp_def)
  moreover have "sorted (map index (indexedEntryModules s))"
    using inv by (simp add: entries_inv_def)
  ultimately have strict: "sorted_wrt (<) (map index (indexedEntryModules s))"
    by (simp add: strict_sorted_iff)
  have unique: "entry_table (run cfg' events' (ModuleLoader_init option' u')) = entry_table s"
    if "set (assignments cfg' events' (ModuleLoader_init option' u')) = set handed"
    for cfg' events' option' and u' :: 'u
    using entries_inv_unique [OF inv run_inv that] .
  show ?thesis
    using counter once least present ids strict unique
    by (simp add: entryModules_def)
qed

theorem entry_list_of_continued_calls_example:
  "assignments example_config example_entries (ModuleLoader_init (MseBool True) 0) =
     [(''c.js'', 2), (''a.js'', 3), (''a.js'', 0), (''b.js'', 1)] \<and>
   entry_table (run example_config example_entries (ModuleLoader_init (MseBool True) 0)) =
     [(''a.js'', 0), (''b.js'', 1), (''c.js'', 2)] \<and>
   entry_table (run example_config (take 7 example_entries) (ModuleLoader_init (MseBool True) 0)) =
     [(''c.js'', 2), (''a.js'', 3)] \<and>
   map module_id (modules (run example_config example_entries (ModuleLoader_init (MseBool True) 0))) =
     [''c.js'', ''a.js'', ''b.js''] \<and>
   entryModules (run example_config example_entries (ModuleLoader_init (MseBool True) 0)) = [1, 2, 0] \<and>
   sorted_wrt (<)
     (map index (indexedEntryModules
        (run example_config example_entries (ModuleLoader_init (MseBool True) 0)))) \<and>
   distinct (map snd (assignments example_config example_entries (ModuleLoader_init (MseBool True) 0)))"
proof -
  have order: "sorted_wrt (<)
     (map index (indexedEntryModules
        (run example_config example_entries (ModuleLoader_init (MseBool True) 0))))"
    and once: "distinct (map snd
        (assignments example_config example_entries (ModuleLoader_init (MseBool True) 0)))"
    using entry_list_of_continued_calls [OF refl refl, of example_config example_entries "MseBool True" 0]
    by blast+
  have "assignments example_config example_entries (ModuleLoader_init (MseBool True) 0) =
     [(''c.js'', 2), (''a.js'', 3), (''a.js'', 0), (''b.js'', 1)]"
    by code_simp
  moreover have
    "entry_table (run example_config example_entries (ModuleLoader_init (MseBool True) 0)) =
       [(''a.js'', 0), (''b.js'', 1), (''c.js'', 2)]"
    by code_simp
  moreover have
    "entry_table (run example_config (take 7 example_entries) (ModuleLoader_init (MseBool True) 0)) =
       [(''c.js'', 2), (''a.js'', 3)]"
    by code_simp
  moreover have
    "map module_id (modules (run example_config example_entries (ModuleLoader_init (MseBool True) 0))) =
       [''c.js'', ''a.js'', ''b.js'']"
    by code_simp
  moreover have
    "entryModules (run example_config example_entries (ModuleLoader_init (MseBool True) 0)) = [1, 2, 0]"
    by code_simp
  ultimately show ?thesis
    using order once by blast
qed

text \<open>
  C5. The order of the returned list by earliest requested index fails on the build
  \<open>example_overlapping_calls\<close>.  The first call of \<^verbatim>\<open>addEntryModules\<close> asks for
  \<^verbatim>\<open>a\<close> and \<^verbatim>\<open>b\<close> and takes the indices 0 and 1; the second asks for \<^verbatim>\<open>c\<close> and
  \<^verbatim>\<open>a\<close> and takes 2 and 3.  \<^verbatim>\<open>c.js\<close> and \<^verbatim>\<open>a.js\<close> are there before \<^verbatim>\<open>b\<close> is
  resolved, so the second call continues first (lines 153-171): it finds no entry
  and gives \<^verbatim>\<open>c.js\<close> the index 2 and \<^verbatim>\<open>a.js\<close> the index 3.  Its
  \<^verbatim>\<open>awaitLoadModulesPromise\<close> (line 172) has nothing to wait for: the first call
  gets to that line only after its own \<^verbatim>\<open>await\<close> of line 152, so no promise of it
  is in \<^verbatim>\<open>latestLoadModulesPromise\<close>.  The promise of the second call is fulfilled
  with \<^verbatim>\<open>entryModules\<close> \<^verbatim>\<open>[c.js, a.js]\<close>, while \<^verbatim>\<open>a\<close> was requested at index 0,
  before \<^verbatim>\<open>c\<close>, and the first call still holds the indices 0 and 1.  Once
  \<^verbatim>\<open>b.js\<close> is there the first call continues, and its promise is fulfilled with
  \<^verbatim>\<open>[a.js, b.js, c.js]\<close>.
\<close>

theorem C5_overlapping_entry_calls:
  "entryCalls (run example_config (take 2 example_overlapping_calls) (ModuleLoader_init (MseBool True) 0)) =
     [\<lparr> firstEntryModuleIndex = 0, unresolvedCount = 2, call_isUserDefined = True \<rparr>,
      \<lparr> firstEntryModuleIndex = 2, unresolvedCount = 2, call_isUserDefined = False \<rparr>] \<and>
   map module_id
     (modules (run example_config (take 14 example_overlapping_calls) (ModuleLoader_init (MseBool True) 0))) =
     [''c.js'', ''a.js''] \<and>
   settledCalls (run example_config (take 14 example_overlapping_calls) (ModuleLoader_init (MseBool True) 0)) =
     [Inr (EntryModulesResult [0, 1] [0, 1])] \<and>
   entry_table (run example_config (take 14 example_overlapping_calls) (ModuleLoader_init (MseBool True) 0)) =
     [(''c.js'', 2), (''a.js'', 3)] \<and>
   entryCalls (run example_config (take 14 example_overlapping_calls) (ModuleLoader_init (MseBool True) 0)) =
     [\<lparr> firstEntryModuleIndex = 0, unresolvedCount = 2, call_isUserDefined = True \<rparr>] \<and>
   map module_id
     (modules (run example_config example_overlapping_calls (ModuleLoader_init (MseBool True) 0))) =
     [''c.js'', ''a.js'', ''b.js''] \<and>
   settledCalls (run example_config example_overlapping_calls (ModuleLoader_init (MseBool True) 0)) =
     [Inr (EntryModulesResult [0, 1] [0, 1]), Inr (EntryModulesResult [1, 2, 0] [1, 2])] \<and>
   entry_table (run example_config example_overlapping_calls (ModuleLoader_init (MseBool True) 0)) =
     [(''a.js'', 0), (''b.js'', 1), (''c.js'', 2)]"
  by code_simp

text \<open>
  \<^verbatim>\<open>addManualChunks\<close> hands the promise of its whole batch to
  \<^verbatim>\<open>awaitLoadModulesPromise\<close> before it returns (line 196).  With such a call in
  flight, the second \<^verbatim>\<open>addEntryModules\<close> call of the build above does wait: its
  combined promise is pending, its \<^verbatim>\<open>await\<close> cannot resume, and no promise is
  settled.
\<close>

lemma manual_chunks_in_flight_are_awaited:
  "settledCalls
     (run example_config example_manual_chunks_in_flight (ModuleLoader_init (MseBool True) 0)) = [] \<and>
   loadModulesCalls
     (run example_config example_manual_chunks_in_flight (ModuleLoader_init (MseBool True) 0)) =
     [\<lparr> loadNewModulesPromise = None, combinedPromise = None, stage = AwaitStartingPromise 1 \<rparr>,
      \<lparr> loadNewModulesPromise = Some (Inr (NewEntryModules [0, 1])), combinedPromise = None,
         stage = AwaitStartingPromise 2 \<rparr>]"
  by code_simp

subsection \<open>The re-export closure\<close>


lemma keys_set_property: "fst ` set (set_property k v table) = insert k (fst ` set table)"
  by (induction table) auto

lemma distinct_set_property:
  "distinct (map fst table) \<Longrightarrow> distinct (map fst (set_property k v table))"
  by (induction table) (auto simp: keys_set_property)


lemma distinct_addOwnExports:
  "distinct (map fst table) \<Longrightarrow> distinct (map fst (addOwnExports id' names table))"
  by (induction names arbitrary: table) (simp_all add: distinct_set_property)











subsection \<open>The predicates built from the configuration\<close>

text \<open>
  C8. For an id that starts with the sentinel \<^verbatim>\<open>'\0'\<close>, the external predicate built
  from a callback returns false and the side-effects predicate built from a callback
  returns true, and neither invokes the callback: the user state is returned as it
  was, for every callback.  For every other id the external predicate invokes the
  callback once and returns true exactly when its result is truthy, and the
  side-effects predicate invokes it once and returns false exactly when its result is
  the boolean false.
\<close>

theorem C8_callback_predicates:
  "(startsWithNul id' \<longrightarrow>
      getIdMatcher (OptFun f) id' args u = (False, u) \<and>
      getHasModuleSideEffects (MseFun g) pureExternalModules id' ext u = (True, u)) \<and>
   (\<not> startsWithNul id' \<longrightarrow>
      getIdMatcher (OptFun f) id' args u = (truthy (fst (f id' args u)), snd (f id' args u)) \<and>
      getHasModuleSideEffects (MseFun g) pureExternalModules id' ext u =
        (fst (g id' ext u) \<noteq> CbBool False, snd (g id' ext u)))"
  by (simp add: case_prod_unfold Let_def)

theorem C8_callback_predicates_witness:
  "startsWithNul (CHR 0x00 # ''virtual'') \<and>
   getIdMatcher (OptFun (\<lambda>i (a :: unit) (n :: nat). (CbBool True, Suc n)))
      (CHR 0x00 # ''virtual'') () 0 = (False, 0) \<and>
   getHasModuleSideEffects (MseFun (\<lambda>i e (n :: nat). (CbBool False, Suc n))) OptUndefined
      (CHR 0x00 # ''virtual'') False 0 = (True, 0) \<and>
   \<not> startsWithNul ''lodash'' \<and>
   getIdMatcher (OptFun (\<lambda>i (a :: unit) (n :: nat). (CbBool True, Suc n)))
      ''lodash'' () 0 = (True, 1) \<and>
   getHasModuleSideEffects (MseFun (\<lambda>i e (n :: nat). (CbBool False, Suc n))) OptUndefined
      ''lodash'' False 0 = (False, 1)"
  using C8_callback_predicates
    [of "CHR 0x00 # ''virtual''" "\<lambda>i (a :: unit) (n :: nat). (CbBool True, Suc n)" "()" 0
        "\<lambda>i e (n :: nat). (CbBool False, Suc n)" OptUndefined False]
    C8_callback_predicates
    [of "''lodash''" "\<lambda>i (a :: unit) (n :: nat). (CbBool True, Suc n)" "()" 0
        "\<lambda>i e (n :: nat). (CbBool False, Suc n)" OptUndefined False]
  by simp

text \<open>
  C10. Let the option be truthy and neither \<^verbatim>\<open>true\<close>, nor a function, nor an array.
  Then it is a single (non-empty) string, the matcher built from it returns true
  exactly for the id equal to that string and false for every other id, and it is
  the matcher built from the array holding that one string.
\<close>

theorem C10_single_value_matcher:
  fixes opt :: "('a, 'u) id_option"
  assumes "option_truthy opt" and "opt \<noteq> OptBool True"
    and "\<forall>f. opt \<noteq> OptFun f" and "\<forall>ids. opt \<noteq> OptArray ids"
  shows "\<exists>s. opt = OptString s \<and>
           getIdMatcher opt id' args u = ((id' = s), u) \<and>
           getIdMatcher opt id' args u = getIdMatcher (OptArray [s]) id' args u"
  using assms by (cases opt) auto

theorem C10_single_value_matcher_witness:
  "option_truthy (OptString ''lodash'' :: (unit, nat) id_option) \<and>
   getIdMatcher (OptString ''lodash'' :: (unit, nat) id_option) ''lodash'' () 0 = (True, 0) \<and>
   getIdMatcher (OptString ''lodash'' :: (unit, nat) id_option) ''react'' () 0 = (False, 0)"
  using C10_single_value_matcher [of "OptString ''lodash'' :: (unit, nat) id_option" "''lodash''" "()" 0]
    C10_single_value_matcher [of "OptString ''lodash'' :: (unit, nat) id_option" "''react''" "()" 0]
  by simp

end
